theory Spec2Isabelle
  imports Complex_Main "HOL-Library.Char_ord"
begin

section \<open>Shared data: errors, floating point, the outside world\<close>

subsection \<open>Errors\<close>

text \<open>
  A Go \<open>error\<close> is a value or \<open>nil\<close>; here it is an \<open>error option\<close> with \<open>None\<close> for
  \<open>nil\<close>. Errors made outside the repository (the AWS SDK, the SQL driver, bcrypt) and the
  ones made by \<open>errors.New\<close> carry only their message. Every \<open>fmt.Errorf\<close> of the source
  is a constructor of its own that keeps the arguments of the format string; the localized
  text of the format itself is fixed and is named in the comment.
\<close>

datatype error =
    Err string
    \<comment> \<open>a library error or \<open>errors.New(msg)\<close>\<close>
  | ErrNoRows
    \<comment> \<open>\<open>sql.ErrNoRows\<close>\<close>
  | Errorf_retry string "error option"
    \<comment> \<open>SafeRetry: \<open>fmt.Errorf("%s <failed>: %v", actionName, last)\<close>\<close>
  | Errorf_list error
    \<comment> \<open>ListInstances: \<open>fmt.Errorf("<fetching instances failed>: %v", err)\<close>\<close>
  | Errorf_detach_timeout string
    \<comment> \<open>DeletePreviousStaticIPOnlyForInstance: detaching the old static IP timed out\<close>
  | Errorf_still_exists string
    \<comment> \<open>DeletePreviousStaticIPOnlyForInstance: the old static IP is still there\<close>
  | Errorf_client_nil
    \<comment> \<open>TestVCPUQuotas: \<open>fmt.Errorf("servicequotas client is nil")\<close>\<close>
  | Errorf_quota "error option" "error option"
    \<comment> \<open>TestVCPUQuotas: \<open>fmt.Errorf("<no quota returned>: onDemandErr=%v; spotErr=%v", e1, e2)\<close>\<close>

subsection \<open>float64\<close>

text \<open>
  A finite \<open>float64\<close> is the rational number it denotes. Each arithmetic operation computes
  the exact result and rounds it to the nearest number with a 53-bit significand, ties to
  even (IEEE 754 binary64). The exponent range is not modelled: every value computed below
  from 64-bit integers is far inside it.
\<close>

function bitlen :: "int \<Rightarrow> nat" where
  "bitlen n = (if n \<le> 0 then 0 else Suc (bitlen (n div 2)))"
  by pat_completeness auto
termination
  by (relation "measure nat") auto

declare bitlen.simps [simp del]

definition pow2 :: "int \<Rightarrow> rat" where
  "pow2 e = (if 0 \<le> e then 2 ^ nat e else 1 / 2 ^ nat (- e))"

definition ilog2 :: "rat \<Rightarrow> int" where
  \<comment> \<open>the binary exponent of a non-zero number: \<open>pow2 (ilog2 x) \<le> \<bar>x\<bar> < pow2 (ilog2 x + 1)\<close>\<close>
  "ilog2 x =
     (let (p, q) = quotient_of \<bar>x\<bar>;
          e = int (bitlen p) - int (bitlen q)
      in if pow2 e \<le> \<bar>x\<bar> then e else e - 1)"

definition round_even :: "rat \<Rightarrow> int" where
  "round_even x =
     (let n = \<lfloor>x\<rfloor>; d = x - of_int n
      in if d < 1 / 2 then n
         else if 1 / 2 < d then n + 1
         else if even n then n else n + 1)"

definition fl64 :: "rat \<Rightarrow> rat" where
  "fl64 x =
     (if x = 0 then 0
      else let s = pow2 (52 - ilog2 x) in of_int (round_even (x * s)) / s)"

definition float64_of_int :: "int \<Rightarrow> rat" where
  \<comment> \<open>the conversion \<open>float64(n)\<close>\<close>
  "float64_of_int n = fl64 (of_int n)"

definition fmul :: "rat \<Rightarrow> rat \<Rightarrow> rat" where
  "fmul x y = fl64 (x * y)"

definition fadd :: "rat \<Rightarrow> rat \<Rightarrow> rat" where
  "fadd x y = fl64 (x + y)"

definition int64_of_float64 :: "rat \<Rightarrow> int option" where
  \<comment> \<open>the conversion \<open>int64(x)\<close>, also \<open>time.Duration(x)\<close>: the fraction is discarded; the
      language leaves the result to the implementation when it does not fit, which is
      \<open>None\<close> here\<close>
  "int64_of_float64 x =
     (let t = (if 0 \<le> x then \<lfloor>x\<rfloor> else \<lceil>x\<rceil>)
      in if - (2 ^ 63) \<le> t \<and> t < 2 ^ 63 then Some t else None)"

subsection \<open>The world: clock and AWS\<close>

text \<open>
  The AWS clients are interfaces to a remote service. The model makes the service a
  deterministic function of the history of calls and of the time of the call
  (\<open>respond\<close>); a claim about every execution quantifies over every such function. A call
  appends itself to \<open>calls\<close> and takes \<open>r_latency\<close> nanoseconds. \<open>time.Sleep\<close> pauses for
  at least the duration asked, \<open>oversleep\<close> giving the excess.
\<close>

record lsInstance =
  i_Name :: "string option"
  i_State :: "string option option"
  \<comment> \<open>\<open>State *InstanceState\<close> and, inside, \<open>Name *string\<close>\<close>
  i_PublicIpAddress :: "string option"
  i_Ipv6Addresses :: "string list"
  i_Location :: "string option option"
  \<comment> \<open>\<open>Location *ResourceLocation\<close> and, inside, \<open>AvailabilityZone *string\<close>\<close>
  i_CreatedAt :: "int option"
  i_BundleId :: "string option"

record staticIp =
  s_Name :: "string option"
  s_IpAddress :: "string option"
  s_AttachedTo :: "string option"
  s_IsAttached :: "bool option"

record serviceQuota =
  q_QuotaName :: "string option"
  q_Value :: "rat option"

datatype call =
    GetInstances
  | GetStaticIps
  | GetStaticIp string
  | DetachStaticIp string
  | ReleaseStaticIp string
  | DeleteInstance string
  | GetServiceQuota string string

record response =
  r_err :: "error option"
  r_instances :: "lsInstance list option"
  \<comment> \<open>\<open>*GetInstancesOutput\<close>, with its \<open>Instances\<close>\<close>
  r_staticIps :: "staticIp list option"
  \<comment> \<open>\<open>*GetStaticIpsOutput\<close>, with its \<open>StaticIps\<close>\<close>
  r_staticIp :: "staticIp option option"
  \<comment> \<open>\<open>*GetStaticIpOutput\<close>, with its \<open>StaticIp\<close> pointer\<close>
  r_quota :: "serviceQuota option option"
  \<comment> \<open>\<open>*GetServiceQuotaOutput\<close>, with its \<open>Quota\<close> pointer\<close>
  r_latency :: nat

record world =
  clock :: int
  calls :: "call list"
  respond :: "call list \<Rightarrow> int \<Rightarrow> response"
  oversleep :: "int \<Rightarrow> nat"

definition api :: "call \<Rightarrow> 'a world_scheme \<Rightarrow> response \<times> 'a world_scheme" where
  "api c w =
     (let r = respond w (calls w @ [c]) (clock w)
      in (r, w\<lparr>calls := calls w @ [c], clock := clock w + int (r_latency r)\<rparr>))"

definition Sleep :: "int option \<Rightarrow> 'a world_scheme \<Rightarrow> 'a world_scheme" where
  \<comment> \<open>\<open>time.Sleep(d)\<close>; a duration that is not positive returns at once, and so does, in
      this model, one whose value the language leaves open\<close>
  "Sleep d w =
     w\<lparr>clock := clock w + (case d of Some n \<Rightarrow> max 0 n | None \<Rightarrow> 0)
                 + int (oversleep w (clock w))\<rparr>"

definition Millisecond :: int where
  "Millisecond = 1000000"

definition Second :: int where
  "Second = 1000 * Millisecond"

definition Minute :: int where
  "Minute = 60 * Second"

section \<open>SafeRetry\<close>

text \<open>
  \<^verbatim>\<open>time.Sleep(time.Duration(float64(baseSleep) * (1.0 + float64(i)*0.35)))\<close>:
  the constant \<open>0.35\<close> is converted to \<open>float64\<close>, and each operation rounds, as the
  amd64 compiler has it (the language lets an implementation fuse the inner product
  and sum into one rounding).
\<close>

definition sleepDur :: "int \<Rightarrow> int \<Rightarrow> int option" where
  "sleepDur baseSleep i =
     int64_of_float64
       (fmul (float64_of_int baseSleep)
          (fadd 1 (fmul (float64_of_int i) (fl64 (35 / 100)))))"

text \<open>
  The wrapped function is a closure: it reads and changes the world, whose extension
  holds whatever state of its own it has. Beside its result, the model of the loop
  returns the trace of what it did: one \<open>Invoke\<close> for each call of \<open>fn\<close>, with the result
  of the call, and one \<open>Slept\<close> for each \<open>time.Sleep\<close>, with its argument.
\<close>

datatype event = Invoke "error option" | Slept "int option"

function retry_loop ::
  "string \<Rightarrow> int \<Rightarrow> int \<Rightarrow> ('a world_scheme \<Rightarrow> error option \<times> 'a world_scheme) \<Rightarrow>
   int \<Rightarrow> error option \<Rightarrow> 'a world_scheme \<Rightarrow> error option \<times> 'a world_scheme \<times> event list"
where
  "retry_loop actionName retries baseSleep fn i lastErr w =
     (if i < retries then
        (case fn w of
           (None, w1) \<Rightarrow> (None, w1, [Invoke None])
         | (Some err, w1) \<Rightarrow>
             (let d = sleepDur baseSleep i;
                  (r, w2, tr) =
                    retry_loop actionName retries baseSleep fn (i + 1) (Some err) (Sleep d w1)
              in (r, w2, Invoke (Some err) # Slept d # tr)))
      else (Some (Errorf_retry actionName lastErr), w, []))"
  by pat_completeness auto
termination
  by (relation "measure (\<lambda>(a, retries, b, fn, i, l, w). nat (retries - i))") auto

declare retry_loop.simps [simp del]

definition SafeRetry ::
  "string \<Rightarrow> int \<Rightarrow> int \<Rightarrow> ('a world_scheme \<Rightarrow> error option \<times> 'a world_scheme) \<Rightarrow>
   'a world_scheme \<Rightarrow> error option \<times> 'a world_scheme \<times> event list"
where
  "SafeRetry actionName retries baseSleep fn w =
     (let retries = (if retries < 1 then 1 else retries)
      in retry_loop actionName retries baseSleep fn 0 None w)"

subsection \<open>Reading a trace\<close>

text \<open>
  The results of the invocations, in order; the errors of the failed ones; the arguments
  of the sleeps.
\<close>

fun results :: "event list \<Rightarrow> error option list" where
  "results [] = []"
| "results (Invoke r # tr) = r # results tr"
| "results (Slept d # tr) = results tr"

fun failures :: "event list \<Rightarrow> error list" where
  "failures [] = []"
| "failures (Invoke (Some e) # tr) = e # failures tr"
| "failures (Invoke None # tr) = failures tr"
| "failures (Slept d # tr) = failures tr"

fun sleeps :: "event list \<Rightarrow> int option list" where
  "sleeps [] = []"
| "sleeps (Invoke r # tr) = sleeps tr"
| "sleeps (Slept d # tr) = d # sleeps tr"

text \<open>
  The trace of \<open>k\<close> failed rounds of the loop that start at index \<open>i\<close>: each failed
  invocation is followed by the sleep computed from the index of its round.
\<close>

fun backoff_trace :: "int \<Rightarrow> int \<Rightarrow> error list \<Rightarrow> event list" where
  "backoff_trace b i [] = []"
| "backoff_trace b i (e # es) = Invoke (Some e) # Slept (sleepDur b i) # backoff_trace b (i + 1) es"

definition result_of :: "error option \<times> 'w \<times> event list \<Rightarrow> error option" where
  "result_of x = fst x"

definition world_of :: "error option \<times> 'w \<times> event list \<Rightarrow> 'w" where
  "world_of x = fst (snd x)"

definition trace_of :: "error option \<times> 'w \<times> event list \<Rightarrow> event list" where
  "trace_of x = snd (snd x)"

text \<open>Every failed invocation of a trace is followed at once by a sleep.\<close>

fun sleep_after_failure :: "event list \<Rightarrow> bool" where
  "sleep_after_failure [] = True"
| "sleep_after_failure (Invoke (Some e) # Slept d # tr) = sleep_after_failure tr"
| "sleep_after_failure (Invoke (Some e) # tr) = False"
| "sleep_after_failure (ev # tr) = sleep_after_failure tr"

text \<open>
  \<open>relabel h fn\<close> behaves as \<open>fn\<close> but returns the error \<open>h e\<close> wherever \<open>fn\<close> returns
  the error \<open>e\<close>; \<open>nil\<close> stays \<open>nil\<close>.
\<close>

definition relabel ::
  "(error \<Rightarrow> error) \<Rightarrow> ('w \<Rightarrow> error option \<times> 'w) \<Rightarrow> 'w \<Rightarrow> error option \<times> 'w" where
  "relabel h fn w = (case fn w of (r, w1) \<Rightarrow> (map_option h r, w1))"

fun relabel_event :: "(error \<Rightarrow> error) \<Rightarrow> event \<Rightarrow> event" where
  "relabel_event h (Invoke r) = Invoke (map_option h r)"
| "relabel_event h (Slept d) = Slept d"

text \<open>
  The backoff as the specification words it, \<open>sleep = base * (1 + i*0.35)\<close>, over the
  rationals.
\<close>

definition spec_backoff :: "int \<Rightarrow> nat \<Rightarrow> rat" where
  "spec_backoff baseSleep i = of_int baseSleep * (1 + of_nat i * (35 / 100))"

text \<open>
  For the error analysis: \<open>ulp\<close> bounds the relative error of one rounding, and
  \<open>near k a x\<close> says that \<open>a\<close> is \<open>x\<close> up to \<open>k\<close> roundings.
\<close>

definition ulp :: rat where
  "ulp = 1 / 2 ^ 53"

definition near :: "nat \<Rightarrow> rat \<Rightarrow> rat \<Rightarrow> bool" where
  "near k a x = (x * (1 - ulp) ^ k \<le> a \<and> a \<le> x * (1 + ulp) ^ k)"

subsection \<open>Concrete worlds\<close>

text \<open>
  A service that answers every call at once with empty outputs; a world at time zero with
  no call made; a service whose first \<open>k\<close> answers are errors. \<open>call_err c\<close> is the closure
  the callers of SafeRetry pass: make the call \<open>c\<close>, return its error.
\<close>

definition quiet :: response where
  "quiet = \<lparr>r_err = None, r_instances = None, r_staticIps = None, r_staticIp = None,
     r_quota = None, r_latency = 0\<rparr>"

definition world0 :: "(call list \<Rightarrow> int \<Rightarrow> response) \<Rightarrow> world" where
  "world0 f = \<lparr>clock = 0, calls = [], respond = f, oversleep = (\<lambda>t. 0)\<rparr>"

definition failing_first :: "nat \<Rightarrow> call list \<Rightarrow> int \<Rightarrow> response" where
  "failing_first k h t = (if length h \<le> k then quiet\<lparr>r_err := Some (Err ''throttled'')\<rparr> else quiet)"

definition call_err :: "call \<Rightarrow> 'a world_scheme \<Rightarrow> error option \<times> 'a world_scheme" where
  "call_err c w = (case api c w of (r, w1) \<Rightarrow> (r_err r, w1))"

section \<open>sanitize\<close>

text \<open>
  A Go string is a sequence of bytes, here a \<open>string\<close>; \<open>for _, r := range s\<close> decodes
  it as UTF-8, one rune (code point) after the other, and yields \<open>RuneError\<close> for a byte
  that starts no valid encoding, advancing by that one byte. \<open>decodeRune\<close> returns the
  rune at the head of the bytes and the number of bytes it takes.
\<close>

definition cont :: "nat \<Rightarrow> bool" where
  "cont b = (128 \<le> b \<and> b \<le> 191)"

definition RuneError :: nat where
  "RuneError = 65533"

fun decodeRune :: "nat list \<Rightarrow> nat \<times> nat" where
  "decodeRune [] = (RuneError, 0)"
| "decodeRune (b0 # bs) =
     (if b0 < 128 then (b0, 1)
      else if 194 \<le> b0 \<and> b0 \<le> 223 then
        (case bs of
           b1 # _ \<Rightarrow>
             if cont b1 then ((b0 - 192) * 64 + (b1 - 128), 2) else (RuneError, 1)
         | _ \<Rightarrow> (RuneError, 1))
      else if 224 \<le> b0 \<and> b0 \<le> 239 then
        (case bs of
           b1 # b2 # _ \<Rightarrow>
             if (if b0 = 224 then 160 else 128) \<le> b1 \<and> b1 \<le> (if b0 = 237 then 159 else 191)
                \<and> cont b2
             then (((b0 - 224) * 64 + (b1 - 128)) * 64 + (b2 - 128), 3)
             else (RuneError, 1)
         | _ \<Rightarrow> (RuneError, 1))
      else if 240 \<le> b0 \<and> b0 \<le> 244 then
        (case bs of
           b1 # b2 # b3 # _ \<Rightarrow>
             if (if b0 = 240 then 144 else 128) \<le> b1 \<and> b1 \<le> (if b0 = 244 then 143 else 191)
                \<and> cont b2 \<and> cont b3
             then ((((b0 - 240) * 64 + (b1 - 128)) * 64 + (b2 - 128)) * 64 + (b3 - 128), 4)
             else (RuneError, 1)
         | _ \<Rightarrow> (RuneError, 1))
      else (RuneError, 1))"

lemma decodeRune_width:
  "bs \<noteq> [] \<Longrightarrow> 1 \<le> snd (decodeRune bs) \<and> snd (decodeRune bs) \<le> length bs"
  by (cases bs) (auto split: list.splits)

text \<open>The runes that a \<open>range\<close> loop over the string sees.\<close>

function runes :: "string \<Rightarrow> nat list" where
  "runes s =
     (if s = [] then []
      else case decodeRune (map of_char s) of (r, w) \<Rightarrow> r # runes (drop w s))"
  by pat_completeness auto
termination
proof (relation "measure length", goal_cases)
  case 1
  show ?case by simp
next
  case (2 s r w)
  from 2(1) have "map of_char s \<noteq> ([]::nat list)" by simp
  from decodeRune_width [OF this] 2(2) have "1 \<le> w" by (metis snd_conv)
  with 2(1) show ?case by (cases s) auto
qed

declare runes.simps [simp del]

text \<open>
  \<open>strings.Builder.WriteRune\<close> appends the UTF-8 encoding of the rune; a rune that is no
  code point is written as \<open>RuneError\<close>.
\<close>

definition encodeRune :: "nat \<Rightarrow> string" where
  "encodeRune r =
     (if r < 128 then [char_of r]
      else if r < 2048 then [char_of (192 + r div 64), char_of (128 + r mod 64)]
      else if (55296 \<le> r \<and> r \<le> 57343) \<or> 1114111 < r then
        [char_of (239::nat), char_of (191::nat), char_of (189::nat)]
      else if r < 65536 then
        [char_of (224 + r div 4096), char_of (128 + r div 64 mod 64), char_of (128 + r mod 64)]
      else [char_of (240 + r div 262144), char_of (128 + r div 4096 mod 64),
            char_of (128 + r div 64 mod 64), char_of (128 + r mod 64)])"

definition WriteRune :: "string \<Rightarrow> nat \<Rightarrow> string" where
  "WriteRune b r = b @ encodeRune r"

text \<open>
  \<open>strings.ToLower\<close>: a string of ASCII bytes is lowered byte by byte; any other string
  goes through the Unicode case tables, which are data of the standard library and are
  the parameter \<open>slow\<close> here.
\<close>

definition ToLower :: "(string \<Rightarrow> string) \<Rightarrow> string \<Rightarrow> string" where
  "ToLower slow s =
     (if list_all (\<lambda>c. of_char c < (128::nat)) s
      then map (\<lambda>c. if (65::nat) \<le> of_char c \<and> of_char c \<le> (90::nat)
                     then char_of (of_char c + (32::nat)) else c) s
      else slow s)"

text \<open>\<^verbatim>\<open>(r >= 'a' && r <= 'z') || (r >= '0' && r <= '9') || r == '-'\<close>\<close>

definition allowed :: "nat \<Rightarrow> bool" where
  "allowed r =
     ((of_char CHR ''a'' \<le> r \<and> r \<le> of_char CHR ''z'') \<or>
      (of_char CHR ''0'' \<le> r \<and> r \<le> of_char CHR ''9'') \<or>
      r = of_char CHR ''-'')"

definition sanitize :: "(string \<Rightarrow> string) \<Rightarrow> string \<Rightarrow> string" where
  "sanitize slow s =
     (let s1 = ToLower slow s;
          out = foldl (\<lambda>b r. if allowed r then WriteRune b r else b) [] (runes s1)
      in if out = [] then ''x'' else out)"

text \<open>
  The helper as the specification words it: the lowercase form of the string with every
  character other than a-z, 0-9 and - removed, and \<open>x\<close> when nothing is left.
\<close>

definition spec_sanitize :: "(string \<Rightarrow> string) \<Rightarrow> string \<Rightarrow> string" where
  "spec_sanitize slow s =
     (let kept = filter (\<lambda>c. (CHR ''a'' \<le> c \<and> c \<le> CHR ''z'') \<or>
                              (CHR ''0'' \<le> c \<and> c \<le> CHR ''9'') \<or> c = CHR ''-'')
                   (ToLower slow s)
      in if kept = [] then ''x'' else kept)"

section \<open>The session store\<close>

text \<open>
  A \<open>time.Time\<close> is a count of nanoseconds. A Go map is the list of its entries, in the
  order an iteration visits them, with no key twice. The store holds pointers to its
  sessions, so touching a session changes the entry of the store. The store's mutex makes
  each method one uninterrupted step; the steps are modelled, not their interleaving.
\<close>

record session =
  sess_m :: "(string \<times> string) list"
  sess_lastAccess :: int

record store =
  st_m :: "(string \<times> session) list"
  st_ttl :: int
  st_cleanupInterval :: int

text \<open>
  \<open>NewStore\<close> also starts the goroutine that calls \<open>cleanupExpired\<close> on every tick of
  \<open>st_cleanupInterval\<close>.
\<close>

definition NewStore :: store where
  "NewStore = \<lparr>st_m = [], st_ttl = 30 * Minute, st_cleanupInterval = 5 * Minute\<rparr>"

definition touch :: "int \<Rightarrow> session \<Rightarrow> session" where
  "touch now s = s\<lparr>sess_lastAccess := now\<rparr>"

definition LastAccess :: "session \<Rightarrow> int" where
  "LastAccess s = sess_lastAccess s"

definition Before :: "int \<Rightarrow> int \<Rightarrow> bool" where
  "Before t u = (t < u)"

text \<open>The builtin \<open>delete(m, k)\<close>.\<close>

definition map_delete :: "string \<Rightarrow> (string \<times> 'v) list \<Rightarrow> (string \<times> 'v) list" where
  "map_delete k m = filter (\<lambda>(k', v). k' \<noteq> k) m"

definition GetOrCreate :: "int \<Rightarrow> string \<Rightarrow> store \<Rightarrow> session \<times> store" where
  "GetOrCreate now sid st =
     (case map_of (st_m st) sid of
        Some s \<Rightarrow>
          (let s' = touch now s
           in (s', st\<lparr>st_m := map (\<lambda>(k, v). if k = sid then (k, s') else (k, v)) (st_m st)\<rparr>))
      | None \<Rightarrow>
          (let s = \<lparr>sess_m = [], sess_lastAccess = now\<rparr>
           in (s, st\<lparr>st_m := st_m st @ [(sid, s)]\<rparr>)))"

text \<open>\<open>now\<close> is what \<open>time.Now()\<close> returns in the call.\<close>

definition cleanupExpired :: "int \<Rightarrow> store \<Rightarrow> store" where
  "cleanupExpired now st =
     (let expiredBefore = now + (- st_ttl st)
      in st\<lparr>st_m :=
            fold (\<lambda>(sid, sess) m. if Before (LastAccess sess) expiredBefore then map_delete sid m else m)
              (st_m st) (st_m st)\<rparr>)"

text \<open>
  A store with two sessions: alice's, made at time 0, and bob's, made twenty minutes
  later.
\<close>

definition two_sessions :: store where
  "two_sessions =
     snd (GetOrCreate (20 * Minute) ''bob'' (snd (GetOrCreate 0 ''alice'' NewStore)))"

section \<open>The credential store\<close>

text \<open>
  The two tables of \<open>initSchema\<close>, each the list of its rows in the order of insertion,
  with the counter behind its \<open>AUTOINCREMENT\<close> key. The column \<open>username\<close> is declared
  \<open>UNIQUE\<close>: the engine refuses an insert that would repeat one.
\<close>

record user_row =
  u_id :: int
  u_username :: string
  u_password_hash :: string
  u_created_at :: string

record key_row =
  k_id :: int
  k_user_id :: int
  k_name :: string
  k_access_key :: string
  k_secret_key :: string
  k_proxy :: string
  k_created_at :: string

record db =
  users :: "user_row list"
  users_seq :: int
  api_keys :: "key_row list"
  api_keys_seq :: int

text \<open>The struct \<open>Key\<close> that \<open>ListKeys\<close> returns; a \<open>time.Time\<close> is a number.\<close>

record Key =
  K_ID :: int
  K_UserID :: int
  K_Name :: string
  K_AccessKey :: string
  K_SecretKey :: string
  K_Proxy :: string
  K_CreatedAt :: int

text \<open>
  What the store does not decide is an input of the model. Every call into the SQL
  driver can fail: \<open>d_prepare\<close> is the error of preparing a statement, \<open>d_run\<close> the error
  of running it, \<open>d_scan\<close> the error of scanning a row, \<open>d_rows_err\<close> the error an
  iteration ends with. A statement that fails changes nothing. \<open>d_hash\<close> is
  \<open>bcrypt.GenerateFromPassword\<close>, \<open>d_timestamp\<close> the engine's \<open>CURRENT_TIMESTAMP\<close>,
  \<open>d_nowName\<close> the value of \<^verbatim>\<open>time.Now().Format("2006-01-02 15:04")\<close>, \<open>d_Parse\<close> is
  \<open>time.Parse\<close> with the layout of the column (the zero time when it fails), and
  \<open>d_TrimFunc\<close>, \<open>d_TrimRightFunc\<close> are \<open>strings.TrimFunc\<close> and \<open>strings.TrimRightFunc\<close>
  with \<open>unicode.IsSpace\<close>.
\<close>

datatype stmt = SelectUserId | InsertUser | SelectKeys | DeleteKeyStmt | UpdateKeyStmt

record env =
  d_TrimFunc :: "string \<Rightarrow> string"
  d_TrimRightFunc :: "string \<Rightarrow> string"
  d_prepare :: "stmt \<Rightarrow> error option"
  d_run :: "stmt \<Rightarrow> error option"
  d_scan :: "key_row \<Rightarrow> error option"
  d_rows_err :: "error option"
  d_hash :: "string \<Rightarrow> error + string"
  d_timestamp :: string
  d_nowName :: string
  d_Parse :: "string \<Rightarrow> int"

text \<open>
  \<open>strings.TrimSpace\<close>: ASCII white space is cut from both ends byte by byte; at the first
  byte that is not ASCII the rest is handed to the Unicode-aware functions.
\<close>

definition asciiSpace :: "char \<Rightarrow> bool" where
  "asciiSpace c = (c \<in> set [CHR 0x09, CHR 0x0A, CHR 0x0B, CHR 0x0C, CHR 0x0D, CHR '' ''])"

definition TrimSpace :: "env \<Rightarrow> string \<Rightarrow> string" where
  "TrimSpace env s =
     (case dropWhile asciiSpace s of
        [] \<Rightarrow> []
      | c # cs \<Rightarrow>
          if (128::nat) \<le> of_char c then d_TrimFunc env (c # cs)
          else (case dropWhile asciiSpace (rev (c # cs)) of
                  [] \<Rightarrow> []
                | c' # cs' \<Rightarrow>
                    if (128::nat) \<le> of_char c' then d_TrimRightFunc env (rev (c' # cs'))
                    else rev (c' # cs')))"

text \<open>\<^verbatim>\<open>SELECT id FROM users WHERE username = ? LIMIT 1;\<close> scanned into one number.\<close>

definition query_user_id :: "env \<Rightarrow> string \<Rightarrow> db \<Rightarrow> error + int" where
  "query_user_id env username d =
     (case d_run env SelectUserId of
        Some e \<Rightarrow> Inl e
      | None \<Rightarrow>
          (case find (\<lambda>r. u_username r = username) (users d) of
             None \<Rightarrow> Inl ErrNoRows
           | Some r \<Rightarrow> Inr (u_id r)))"

text \<open>\<^verbatim>\<open>INSERT INTO users (username, password_hash) VALUES (?, ?);\<close>\<close>

definition insert_user :: "env \<Rightarrow> string \<Rightarrow> string \<Rightarrow> db \<Rightarrow> error + db" where
  "insert_user env username hash d =
     (case d_run env InsertUser of
        Some e \<Rightarrow> Inl e
      | None \<Rightarrow>
          if username \<in> set (map u_username (users d))
          then Inl (Err ''UNIQUE constraint failed: users.username'')
          else Inr (d\<lparr>users := users d @
                         [\<lparr>u_id = users_seq d + 1, u_username = username,
                           u_password_hash = hash, u_created_at = d_timestamp env\<rparr>],
                       users_seq := users_seq d + 1\<rparr>))"

definition EnsureUser ::
  "env \<Rightarrow> string \<Rightarrow> string \<Rightarrow> db \<Rightarrow> (bool \<times> error option) \<times> db" where
  "EnsureUser env username0 password0 d =
     (let username = TrimSpace env username0;
          password = TrimSpace env password0
      in if username = [] \<or> password = [] then
           ((False, Some (Err ''username/password required'')), d)
         else
           (case d_prepare env SelectUserId of
              Some e \<Rightarrow> ((False, Some e), d)
            | None \<Rightarrow>
                (case query_user_id env username d of
                   Inr existingID \<Rightarrow> ((False, None), d)
                 | Inl err \<Rightarrow>
                     if err \<noteq> ErrNoRows then ((False, Some err), d)
                     else
                       (case d_hash env password of
                          Inl e \<Rightarrow> ((False, Some e), d)
                        | Inr hash \<Rightarrow>
                            (case d_prepare env InsertUser of
                               Some e \<Rightarrow> ((False, Some e), d)
                             | None \<Rightarrow>
                                 (case insert_user env username hash d of
                                    Inl e \<Rightarrow> ((False, Some e), d)
                                  | Inr d' \<Rightarrow> ((True, None), d')))))))"

text \<open>The loop over \<open>rows.Next()\<close>: scan a row, parse its time, append the key.\<close>

fun scan_rows :: "env \<Rightarrow> key_row list \<Rightarrow> Key list \<Rightarrow> error + Key list" where
  "scan_rows env [] out = Inr out"
| "scan_rows env (r # rs) out =
     (case d_scan env r of
        Some e \<Rightarrow> Inl e
      | None \<Rightarrow>
          scan_rows env rs
            (out @ [\<lparr>K_ID = k_id r, K_UserID = k_user_id r, K_Name = k_name r,
                     K_AccessKey = k_access_key r, K_SecretKey = k_secret_key r,
                     K_Proxy = k_proxy r, K_CreatedAt = d_Parse env (k_created_at r)\<rparr>]))"

text \<open>
  \<^verbatim>\<open>SELECT ... FROM api_keys WHERE user_id = ? ORDER BY id DESC;\<close>
\<close>

definition select_keys :: "int \<Rightarrow> db \<Rightarrow> key_row list" where
  "select_keys userID d =
     rev (sort_key k_id (filter (\<lambda>r. k_user_id r = userID) (api_keys d)))"

definition ListKeys :: "env \<Rightarrow> int \<Rightarrow> db \<Rightarrow> Key list \<times> error option" where
  "ListKeys env userID d =
     (case d_prepare env SelectKeys of
        Some e \<Rightarrow> ([], Some e)
      | None \<Rightarrow>
          (case d_run env SelectKeys of
             Some e \<Rightarrow> ([], Some e)
           | None \<Rightarrow>
               (case scan_rows env (select_keys userID d) [] of
                  Inl e \<Rightarrow> ([], Some e)
                | Inr out \<Rightarrow>
                    (case d_rows_err env of
                       Some e \<Rightarrow> ([], Some e)
                     | None \<Rightarrow> (out, None)))))"

text \<open>\<^verbatim>\<open>DELETE FROM api_keys WHERE id = ? AND user_id = ?;\<close>\<close>

definition DeleteKey :: "env \<Rightarrow> int \<Rightarrow> int \<Rightarrow> db \<Rightarrow> error option \<times> db" where
  "DeleteKey env userID keyID d =
     (if keyID = 0 then (None, d)
      else
        (case d_prepare env DeleteKeyStmt of
           Some e \<Rightarrow> (Some e, d)
         | None \<Rightarrow>
             (case d_run env DeleteKeyStmt of
                Some e \<Rightarrow> (Some e, d)
              | None \<Rightarrow>
                  (None, d\<lparr>api_keys :=
                     filter (\<lambda>r. \<not> (k_id r = keyID \<and> k_user_id r = userID)) (api_keys d)\<rparr>))))"

text \<open>
  \<^verbatim>\<open>UPDATE api_keys SET name = ?, access_key = ?, secret_key = ?, proxy = ? WHERE id = ? AND user_id = ?;\<close>
\<close>

definition UpdateKey ::
  "env \<Rightarrow> int \<Rightarrow> int \<Rightarrow> string \<Rightarrow> string \<Rightarrow> string \<Rightarrow> string \<Rightarrow> db \<Rightarrow> error option \<times> db" where
  "UpdateKey env userID keyID name0 accessKey secretKey proxy d =
     (if keyID = 0 then (Some (Err ''missing key id''), d)
      else if TrimSpace env accessKey = [] \<or> TrimSpace env secretKey = [] then
        (Some (Err ''missing key values''), d)
      else
        (let name = (if TrimSpace env name0 = [] then d_nowName env else name0)
         in case d_prepare env UpdateKeyStmt of
              Some e \<Rightarrow> (Some e, d)
            | None \<Rightarrow>
                (case d_run env UpdateKeyStmt of
                   Some e \<Rightarrow> (Some e, d)
                 | None \<Rightarrow>
                     (None, d\<lparr>api_keys :=
                        map (\<lambda>r. if k_id r = keyID \<and> k_user_id r = userID
                                  then r\<lparr>k_name := name, k_access_key := accessKey,
                                         k_secret_key := secretKey, k_proxy := proxy\<rparr>
                                  else r) (api_keys d)\<rparr>))))"

text \<open>
  A driver that never fails; the empty database; the database after the first user was
  created; a database with the keys of two owners.
\<close>

definition healthy :: env where
  "healthy =
     \<lparr>d_TrimFunc = (\<lambda>s. s), d_TrimRightFunc = (\<lambda>s. s),
      d_prepare = (\<lambda>q. None), d_run = (\<lambda>q. None), d_scan = (\<lambda>r. None), d_rows_err = None,
      d_hash = (\<lambda>p. Inr (''$2a$10$'' @ p)), d_timestamp = ''2024-01-01 00:00:00'',
      d_nowName = ''2024-01-01 00:00'', d_Parse = (\<lambda>s. 0)\<rparr>"

definition empty_db :: db where
  "empty_db = \<lparr>users = [], users_seq = 0, api_keys = [], api_keys_seq = 0\<rparr>"

definition admin_db :: db where
  "admin_db = snd (EnsureUser healthy '' admin '' ''admin123'' empty_db)"


definition two_owner_db :: db where
  "two_owner_db =
     empty_db\<lparr>api_keys :=
        [\<lparr>k_id = 1, k_user_id = 1, k_name = ''main'', k_access_key = ''AKIA1'',
          k_secret_key = ''s1'', k_proxy = [], k_created_at = ''2024-01-01 00:00:00''\<rparr>,
         \<lparr>k_id = 2, k_user_id = 2, k_name = ''other'', k_access_key = ''AKIA2'',
          k_secret_key = ''s2'', k_proxy = [], k_created_at = ''2024-01-02 00:00:00''\<rparr>,
         \<lparr>k_id = 3, k_user_id = 1, k_name = ''spare'', k_access_key = ''AKIA3'',
          k_secret_key = ''s3'', k_proxy = [], k_created_at = ''2024-01-03 00:00:00''\<rparr>],
        api_keys_seq := 3\<rparr>"

section \<open>Lightsail: the static IP cleanup and the listing\<close>

text \<open>The helper \<open>str\<close>: a \<open>nil\<close> pointer reads as the empty string.\<close>

definition str :: "string option \<Rightarrow> string" where
  "str p = (case p of None \<Rightarrow> [] | Some s \<Rightarrow> s)"

text \<open>
  The action names that the callers give SafeRetry are Chinese; they are written here by
  their UTF-8 bytes: "detach the old static IP", "release the old static IP", "delete
  the instance".
\<close>

definition utf8 :: "nat list \<Rightarrow> string" where
  "utf8 bs = map char_of bs"

definition action_detach :: string where
  "action_detach = utf8 [232, 167, 163, 231, 187, 145, 230, 151, 167, 233, 157, 153, 230, 128, 129, 73, 80]"

definition action_release :: string where
  "action_release = utf8 [233, 135, 138, 230, 148, 190, 230, 151, 167, 233, 157, 153, 230, 128, 129, 73, 80]"

definition action_delete :: string where
  "action_delete = utf8 [229, 136, 160, 233, 153, 164, 229, 174, 158, 228, 190, 139]"

definition FindAttachedStaticIPName ::
  "string \<Rightarrow> 'a world_scheme \<Rightarrow> (string \<times> string) \<times> 'a world_scheme" where
  "FindAttachedStaticIPName instanceName w =
     (case api GetStaticIps w of
        (r, w1) \<Rightarrow>
          (case (r_err r, r_staticIps r) of
             (None, Some sips) \<Rightarrow>
               (case find (\<lambda>si. s_AttachedTo si = Some instanceName \<and>
                                 (s_IsAttached si = None \<or> s_IsAttached si = Some True)) sips of
                  Some si \<Rightarrow> ((str (s_Name si), str (s_IpAddress si)), w1)
                | None \<Rightarrow> (([], []), w1))
           | _ \<Rightarrow> (([], []), w1)))"

text \<open>
  The loop of \<open>WaitStaticIPDetached\<close>, \<^verbatim>\<open>for time.Now().Before(deadline) { ... }\<close>. It
  ends: every round sleeps two seconds, and no call turns the clock back.
\<close>

function wait_detached ::
  "string \<Rightarrow> int \<Rightarrow> 'a world_scheme \<Rightarrow> bool \<times> 'a world_scheme" where
  "wait_detached staticIPName deadline w =
     (if Before (clock w) deadline then
        (case api (GetStaticIp staticIPName) w of
           (r, w1) \<Rightarrow>
             (case (r_err r, r_staticIp r) of
                (None, Some (Some si)) \<Rightarrow>
                  if s_IsAttached si = Some False then (True, w1)
                  else if s_AttachedTo si = None \<or> s_AttachedTo si = Some [] then (True, w1)
                  else wait_detached staticIPName deadline (Sleep (Some (2 * Second)) w1)
              | _ \<Rightarrow> (True, w1)))
      else (False, w))"
  by pat_completeness auto
termination
proof (relation "measure (\<lambda>(n, deadline, w). nat (deadline - clock w))", goal_cases)
  case 1
  show ?case by simp
next
  case 2
  then show ?case
    by (auto simp: api_def Sleep_def Let_def Before_def Second_def Millisecond_def)
qed

declare wait_detached.simps [simp del]

definition WaitStaticIPDetached ::
  "string \<Rightarrow> int \<Rightarrow> 'a world_scheme \<Rightarrow> bool \<times> 'a world_scheme" where
  "WaitStaticIPDetached staticIPName timeout w =
     wait_detached staticIPName (clock w + timeout) w"

text \<open>
  The last loop of \<open>DeletePreviousStaticIPOnlyForInstance\<close>: wait until the released
  address is gone, for ninety seconds at most.
\<close>

function wait_released ::
  "string \<Rightarrow> int \<Rightarrow> 'a world_scheme \<Rightarrow> (string \<times> error option) \<times> 'a world_scheme" where
  "wait_released oldName deadline w =
     (if Before (clock w) deadline then
        (case api (GetStaticIp oldName) w of
           (r, w1) \<Rightarrow>
             if r_err r \<noteq> None then ((oldName, None), w1)
             else wait_released oldName deadline (Sleep (Some (2 * Second)) w1))
      else (([], Some (Errorf_still_exists oldName)), w))"
  by pat_completeness auto
termination
proof (relation "measure (\<lambda>(n, deadline, w). nat (deadline - clock w))", goal_cases)
  case 1
  show ?case by simp
next
  case 2
  then show ?case
    by (auto simp: api_def Sleep_def Let_def Before_def Second_def Millisecond_def)
qed

declare wait_released.simps [simp del]

definition DeletePreviousStaticIPOnlyForInstance ::
  "string \<Rightarrow> 'a world_scheme \<Rightarrow> (string \<times> error option) \<times> 'a world_scheme" where
  "DeletePreviousStaticIPOnlyForInstance instanceName w =
     (case FindAttachedStaticIPName instanceName w of
        ((oldName, ip), w1) \<Rightarrow>
          if oldName = [] then (([], None), w1)
          else
            (case SafeRetry action_detach 8 (1200 * Millisecond)
                    (call_err (DetachStaticIp oldName)) w1 of
               (Some err, w2, tr) \<Rightarrow> (([], Some err), w2)
             | (None, w2, tr) \<Rightarrow>
                 (case WaitStaticIPDetached oldName (120 * Second) w2 of
                    (False, w3) \<Rightarrow> (([], Some (Errorf_detach_timeout oldName)), w3)
                  | (True, w3) \<Rightarrow>
                      (case SafeRetry action_release 12 (1300 * Millisecond)
                              (call_err (ReleaseStaticIp oldName)) w3 of
                         (Some err, w4, tr) \<Rightarrow> (([], Some err), w4)
                       | (None, w4, tr) \<Rightarrow>
                           wait_released oldName (clock w4 + 90 * Second) w4))))"

text \<open>\<^verbatim>\<open>_, _ = DeletePreviousStaticIPOnlyForInstance(ctx, cli, name)\<close>, then the deletion.\<close>

definition DeleteInstanceWithStaticIPCleanup ::
  "string \<Rightarrow> 'a world_scheme \<Rightarrow> error option \<times> 'a world_scheme" where
  "DeleteInstanceWithStaticIPCleanup name w =
     (case DeletePreviousStaticIPOnlyForInstance name w of
        (ignored, w1) \<Rightarrow>
          (case SafeRetry action_delete 8 (1200 * Millisecond)
                  (call_err (DeleteInstance name)) w1 of
             (err, w2, tr) \<Rightarrow> (err, w2)))"

text \<open>
  A service in which the static IP \<open>sip-1\<close> is attached to \<open>vm\<close> and every detach is
  refused.
\<close>

definition stuck_ip :: "call list \<Rightarrow> int \<Rightarrow> response" where
  "stuck_ip h t =
     (case last h of
        GetStaticIps \<Rightarrow>
          quiet\<lparr>r_staticIps := Some [\<lparr>s_Name = Some ''sip-1'', s_IpAddress = Some ''1.2.3.4'',
              s_AttachedTo = Some ''vm'', s_IsAttached = Some True\<rparr>]\<rparr>
      | DetachStaticIp n \<Rightarrow> quiet\<lparr>r_err := Some (Err ''denied'')\<rparr>
      | _ \<Rightarrow> quiet)"

subsection \<open>ListInstances\<close>

text \<open>
  \<open>ListInstances\<close> dereferences \<open>out\<close> and \<open>ins.Location\<close> without a test: where one is
  \<open>nil\<close> the function panics, which is the outcome \<open>Panic\<close>. \<open>Format\<close> is
  \<^verbatim>\<open>CreatedAt.Format("2006-01-02 15:04:05")\<close>.
\<close>

record InstanceView =
  v_Name :: string
  v_State :: string
  v_PublicIPv4 :: string
  v_PublicIPv6 :: string
  v_StaticIPv4 :: string
  v_Zone :: string
  v_BundleID :: string
  v_Created :: string

datatype 'a outcome = Panic | Return 'a

definition staticMap_of :: "staticIp list \<Rightarrow> (string \<rightharpoonup> string)" where
  "staticMap_of sips =
     fold (\<lambda>si m.
             case (s_AttachedTo si, s_IpAddress si) of
               (Some attachedTo, Some ip) \<Rightarrow>
                 if s_IsAttached si = None \<or> s_IsAttached si = Some True
                 then m(attachedTo \<mapsto> ip) else m
             | _ \<Rightarrow> m)
       sips Map.empty"

definition view_of ::
  "(int \<Rightarrow> string) \<Rightarrow> (string \<rightharpoonup> string) \<Rightarrow> lsInstance \<Rightarrow> InstanceView option" where
  "view_of Format staticMap ins =
     (let name = str (i_Name ins);
          state = (case i_State ins of Some (Some n) \<Rightarrow> n | _ \<Rightarrow> []);
          public4 = str (i_PublicIpAddress ins);
          public6 = (case i_Ipv6Addresses ins of a # _ \<Rightarrow> a | [] \<Rightarrow> [])
      in case i_Location ins of
           None \<Rightarrow> None
         | Some az \<Rightarrow>
             (let zone = str az;
                  created = (case i_CreatedAt ins of Some t \<Rightarrow> Format t | None \<Rightarrow> [])
              in Some \<lparr>v_Name = name, v_State = state, v_PublicIPv4 = public4,
                       v_PublicIPv6 = public6,
                       v_StaticIPv4 = (case staticMap name of Some ip \<Rightarrow> ip | None \<Rightarrow> []),
                       v_Zone = zone, v_BundleID = str (i_BundleId ins),
                       v_Created = created\<rparr>))"

fun views ::
  "(int \<Rightarrow> string) \<Rightarrow> (string \<rightharpoonup> string) \<Rightarrow> lsInstance list \<Rightarrow> InstanceView list \<Rightarrow>
   InstanceView list option" where
  "views Format staticMap [] acc = Some acc"
| "views Format staticMap (ins # rest) acc =
     (case view_of Format staticMap ins of
        None \<Rightarrow> None
      | Some v \<Rightarrow> views Format staticMap rest (acc @ [v]))"

definition ListInstances ::
  "(int \<Rightarrow> string) \<Rightarrow> 'a world_scheme \<Rightarrow>
   (InstanceView list \<times> error option) outcome \<times> 'a world_scheme" where
  "ListInstances Format w =
     (case api GetInstances w of
        (out, w1) \<Rightarrow>
          (case r_err out of
             Some err \<Rightarrow> (Return ([], Some (Errorf_list err)), w1)
           | None \<Rightarrow>
               (case api GetStaticIps w1 of
                  (sipOut, w2) \<Rightarrow>
                    (let staticMap = (case r_staticIps sipOut of
                                        Some sips \<Rightarrow> staticMap_of sips
                                      | None \<Rightarrow> Map.empty)
                     in case r_instances out of
                          None \<Rightarrow> (Panic, w2)
                        | Some inss \<Rightarrow>
                            (case views Format staticMap inss [] of
                               None \<Rightarrow> (Panic, w2)
                             | Some list \<Rightarrow> (Return (list, None), w2))))))"

text \<open>
  A service that lists one instance and fails every other call.
\<close>

definition ips_down :: "call list \<Rightarrow> int \<Rightarrow> response" where
  "ips_down h t =
     (if last h = GetInstances
      then quiet\<lparr>r_instances := Some [\<lparr>i_Name = Some ''vm'', i_State = Some (Some ''running''),
              i_PublicIpAddress = Some ''1.2.3.4'', i_Ipv6Addresses = [],
              i_Location = Some (Some ''us-east-1a''), i_CreatedAt = None,
              i_BundleId = Some ''nano_3_0''\<rparr>]\<rparr>
      else quiet\<lparr>r_err := Some (Err ''Throttling'')\<rparr>)"

section \<open>The quota lookup\<close>

text \<open>\<open>strconv.FormatInt(n, 10)\<close>\<close>

function digits :: "int \<Rightarrow> string" where
  "digits n =
     (if n < 10 then [char_of (48 + n)]
      else digits (n div 10) @ [char_of (48 + n mod 10)])"
  by pat_completeness auto
termination
  by (relation "measure nat") auto

declare digits.simps [simp del]

definition FormatInt :: "int \<Rightarrow> string" where
  "FormatInt n = (if n < 0 then CHR ''-'' # digits (- n) else digits n)"

text \<open>
  \<open>FormatFloat\<close> is \<^verbatim>\<open>strconv.FormatFloat(f, 'f', -1, 64)\<close>, a function of the standard
  library; \<open>p_int64_overflow\<close> is what the conversion \<open>int64(f)\<close> gives on this platform
  for a number outside the range of \<open>int64\<close>. A quota value is a finite \<open>float64\<close>.
\<close>

record runtime =
  p_FormatFloat :: "rat \<Rightarrow> string"
  p_int64_overflow :: "rat \<Rightarrow> int"

definition floatPtrToString :: "runtime \<Rightarrow> rat option \<Rightarrow> string" where
  "floatPtrToString pf v =
     (case v of
        None \<Rightarrow> []
      | Some f \<Rightarrow>
          (let n = (case int64_of_float64 f of Some t \<Rightarrow> t | None \<Rightarrow> p_int64_overflow pf f)
           in if f = float64_of_int n then FormatInt n else p_FormatFloat pf f))"

definition quotaCodeOnDemandStdVcpu :: string where
  "quotaCodeOnDemandStdVcpu = ''L-1216C47A''"

definition quotaCodeSpotStdVcpu :: string where
  "quotaCodeSpotStdVcpu = ''L-34B43A08''"

text \<open>
  The name and the value that one answer contributes:
  \<^verbatim>\<open>if e == nil && out != nil && out.Quota != nil { ... }\<close>; both stay empty otherwise.
\<close>

definition quota_fields :: "runtime \<Rightarrow> response \<Rightarrow> string \<times> string" where
  "quota_fields pf out =
     (case (r_err out, r_quota out) of
        (None, Some (Some q)) \<Rightarrow> (str (q_QuotaName q), floatPtrToString pf (q_Value q))
      | _ \<Rightarrow> ([], []))"

text \<open>
  \<open>cli_is_nil\<close> says whether the client pointer is \<open>nil\<close>. The result is
  \<open>(onVal, spotVal, onName, spotName, err)\<close>, in the order of the source.
\<close>

definition TestVCPUQuotas ::
  "runtime \<Rightarrow> bool \<Rightarrow> 'a world_scheme \<Rightarrow>
   (string \<times> string \<times> string \<times> string \<times> error option) \<times> 'a world_scheme" where
  "TestVCPUQuotas pf cli_is_nil w =
     (if cli_is_nil then (([], [], [], [], Some Errorf_client_nil), w)
      else
        (case api (GetServiceQuota ''ec2'' quotaCodeOnDemandStdVcpu) w of
           (onOut, w1) \<Rightarrow>
             (case quota_fields pf onOut of
                (onName, onVal) \<Rightarrow>
                  (case api (GetServiceQuota ''ec2'' quotaCodeSpotStdVcpu) w1 of
                     (spotOut, w2) \<Rightarrow>
                       (case quota_fields pf spotOut of
                          (spotName, spotVal) \<Rightarrow>
                            if onVal = [] \<and> spotVal = [] then
                              (([], [], [], [],
                                Some (Errorf_quota (r_err onOut) (r_err spotOut))), w2)
                            else ((onVal, spotVal, onName, spotName, None), w2))))))"

text \<open>
  A runtime for the examples, which format whole numbers only; the last component of a
  result; a service that knows the Spot quota and denies every other call.
\<close>

definition runtime0 :: runtime where
  "runtime0 = \<lparr>p_FormatFloat = (\<lambda>f. ''?''), p_int64_overflow = (\<lambda>f. - (2 ^ 63))\<rparr>"

definition quota_err ::
  "(string \<times> string \<times> string \<times> string \<times> error option) \<times> 'w \<Rightarrow> error option" where
  "quota_err x = snd (snd (snd (snd (fst x))))"

definition spot_only :: "call list \<Rightarrow> int \<Rightarrow> response" where
  "spot_only h t =
     (if last h = GetServiceQuota ''ec2'' quotaCodeSpotStdVcpu
      then quiet\<lparr>r_quota := Some (Some \<lparr>q_QuotaName = Some ''All Standard Spot Instance Requests'',
                                         q_Value = Some 32\<rparr>)\<rparr>
      else quiet\<lparr>r_err := Some (Err ''AccessDenied'')\<rparr>)"

section \<open>Properties of the float64 model\<close>

subsection \<open>One rounding\<close>

text \<open>
  The exponent that \<open>ilog2\<close> computes is the binary exponent, and rounding moves a number
  by at most half a unit in the last of its 53 places.
\<close>

lemma bitlen_bounds:
  "0 < n \<Longrightarrow> n < 2 ^ bitlen n \<and> 2 ^ bitlen n \<le> 2 * n"
proof (induction n rule: bitlen.induct)
  case (1 n)
  show ?case
  proof (cases "n div 2 = 0")
    case True
    with "1.prems" have "n = 1" by presburger
    then show ?thesis by (simp add: bitlen.simps [of 1] bitlen.simps [of 0])
  next
    case False
    with "1.prems" have pos: "0 < n div 2" by presburger
    from "1.IH" [OF _ pos] "1.prems"
    have ih: "n div 2 < 2 ^ bitlen (n div 2)" "2 ^ bitlen (n div 2) \<le> 2 * (n div 2)"
      by auto
    have unfold: "bitlen n = Suc (bitlen (n div 2))"
      using "1.prems" by (simp add: bitlen.simps [of n])
    from ih show ?thesis unfolding unfold by (simp, presburger)
  qed
qed

lemma pow2_powi: "pow2 e = 2 powi e"
  by (simp add: pow2_def power_int_def field_simps)

lemma pow2_pos: "0 < pow2 e"
  by (simp add: pow2_powi)

lemma pow2_add: "pow2 (a + b) = pow2 a * pow2 b"
  by (simp add: pow2_powi power_int_add)

lemma pow2_Suc: "pow2 (e + 1) = 2 * pow2 e"
  by (simp add: pow2_add) (simp add: pow2_def)

lemma pow2_nat: "pow2 (int k) = 2 ^ k"
  by (simp add: pow2_def)

lemma pow2_diff_nat: "pow2 (int a - int b) = 2 ^ a / 2 ^ b"
  by (simp add: pow2_powi power_int_diff)

lemma ilog2_bounds:
  assumes "x \<noteq> 0"
  shows "pow2 (ilog2 x) \<le> \<bar>x\<bar> \<and> \<bar>x\<bar> < pow2 (ilog2 x + 1)"
proof -
  obtain p q where pq: "quotient_of \<bar>x\<bar> = (p, q)" by (cases "quotient_of \<bar>x\<bar>")
  then have q: "0 < q" and x: "\<bar>x\<bar> = of_int p / of_int q"
    by (simp_all add: quotient_of_denom_pos quotient_of_div)
  from assms have "0 < \<bar>x\<bar>" by simp
  with x q have p: "0 < p" by (simp add: zero_less_divide_iff)
  define e where "e = int (bitlen p) - int (bitlen q)"
  from bitlen_bounds [OF p] have bp: "p < 2 ^ bitlen p" "2 ^ bitlen p \<le> 2 * p" by auto
  from bitlen_bounds [OF q] have bq: "q < 2 ^ bitlen q" "2 ^ bitlen q \<le> 2 * q" by auto
  have rp: "(of_int p :: rat) < 2 ^ bitlen p" "(2 ^ bitlen p :: rat) \<le> 2 * of_int p"
    using bp by (metis of_int_less_iff of_int_numeral of_int_power,
        metis of_int_le_iff of_int_mult of_int_numeral of_int_power)
  have rq: "(of_int q :: rat) < 2 ^ bitlen q" "(2 ^ bitlen q :: rat) \<le> 2 * of_int q"
    using bq by (metis of_int_less_iff of_int_numeral of_int_power,
        metis of_int_le_iff of_int_mult of_int_numeral of_int_power)
  have qpos: "(0::rat) < of_int q" using q by simp
  have upper: "\<bar>x\<bar> < pow2 (e + 1)"
  proof -
    have "of_int p * 2 ^ bitlen q < (2 ^ bitlen p :: rat) * (2 * of_int q)"
    proof -
      have "of_int p * 2 ^ bitlen q < (2 ^ bitlen p :: rat) * 2 ^ bitlen q"
        using rp(1) by simp
      also have "\<dots> \<le> 2 ^ bitlen p * (2 * of_int q)"
        using rq(2) by simp
      finally show ?thesis .
    qed
    then have "of_int p / of_int q < (2::rat) * (2 ^ bitlen p / 2 ^ bitlen q)"
      using qpos by (simp add: field_simps)
    then show ?thesis by (simp add: x e_def pow2_Suc pow2_diff_nat)
  qed
  have lower: "pow2 (e - 1) \<le> \<bar>x\<bar>"
  proof -
    have "(2 ^ bitlen p :: rat) * of_int q \<le> 2 * of_int p * 2 ^ bitlen q"
    proof -
      have "(2 ^ bitlen p :: rat) * of_int q \<le> 2 * of_int p * of_int q"
        using rp(2) qpos by simp
      also have "\<dots> \<le> 2 * of_int p * 2 ^ bitlen q"
        using rq(1) p by simp
      finally show ?thesis .
    qed
    then have "(2 ^ bitlen p / 2 ^ bitlen q :: rat) \<le> 2 * (of_int p / of_int q)"
      using qpos by (simp add: field_simps)
    moreover have "pow2 e = 2 * pow2 (e - 1)" using pow2_Suc [of "e - 1"] by simp
    ultimately show ?thesis using pow2_pos [of "e - 1"] by (simp add: x e_def pow2_diff_nat)
  qed
  show ?thesis
  proof (cases "pow2 e \<le> \<bar>x\<bar>")
    case True
    with pq have "ilog2 x = e" by (simp add: ilog2_def e_def)
    with True upper show ?thesis by simp
  next
    case False
    with pq have "ilog2 x = e - 1" by (simp add: ilog2_def e_def)
    with False lower show ?thesis by simp
  qed
qed

lemma round_even_error: "\<bar>of_int (round_even y) - y\<bar> \<le> 1 / 2"
proof -
  define d where "d = y - of_int \<lfloor>y\<rfloor>"
  have d: "0 \<le> d" "d < 1" unfolding d_def by linarith+
  have r: "round_even y =
      (if d < 1 / 2 then \<lfloor>y\<rfloor> else if 1 / 2 < d then \<lfloor>y\<rfloor> + 1
       else if even \<lfloor>y\<rfloor> then \<lfloor>y\<rfloor> else \<lfloor>y\<rfloor> + 1)"
    unfolding round_even_def Let_def d_def ..
  have y: "y = of_int \<lfloor>y\<rfloor> + d" by (simp add: d_def)
  consider "d < 1 / 2" | "1 / 2 < d" | "d = 1 / 2" by linarith
  then show ?thesis
  proof cases
    case 1
    with r have "of_int (round_even y) - y = - d" using y by simp
    with 1 d show ?thesis by simp
  next
    case 2
    with r have "of_int (round_even y) - y = 1 - d" using y by simp
    with 2 d show ?thesis by simp
  next
    case 3
    with r have "of_int (round_even y) - y = - d \<or> of_int (round_even y) - y = 1 - d"
      using y by auto
    with 3 show ?thesis by auto
  qed
qed

lemma fl64_error: "\<bar>fl64 x - x\<bar> \<le> \<bar>x\<bar> / 2 ^ 53"
proof (cases "x = 0")
  case True
  then show ?thesis by (simp add: fl64_def)
next
  case False
  define e where "e = ilog2 x"
  define s where "s = pow2 (52 - e)"
  have s: "0 < s" by (simp add: s_def pow2_pos)
  have fl: "fl64 x = of_int (round_even (x * s)) / s"
    using False by (simp add: fl64_def s_def e_def Let_def)
  have "fl64 x - x = (of_int (round_even (x * s)) - x * s) / s"
    using s by (simp add: fl field_simps)
  then have "\<bar>fl64 x - x\<bar> = \<bar>of_int (round_even (x * s)) - x * s\<bar> / s"
    using s by (simp add: abs_divide)
  also have "\<dots> \<le> (1 / 2) / s"
    using round_even_error [of "x * s"] s by (intro divide_right_mono) auto
  also have "\<dots> = pow2 e / 2 ^ 53"
  proof -
    have "pow2 52 = pow2 (52 - e) * pow2 e" using pow2_add [of "52 - e" e] by simp
    then have "s * pow2 e = 2 ^ 52" by (simp add: s_def pow2_def)
    with s show ?thesis by (simp add: field_simps)
  qed
  also have "\<dots> \<le> \<bar>x\<bar> / 2 ^ 53"
    using ilog2_bounds [OF False] by (simp add: e_def divide_right_mono)
  finally show ?thesis .
qed

subsection \<open>The backoff is close to the formula\<close>

lemma ulp_bounds: "0 < ulp" "ulp < 1" "0 \<le> 1 - ulp" "1 - ulp \<le> 1" "1 \<le> 1 + ulp"
  by (simp_all add: ulp_def)

lemma near_refl: "near 0 x x"
  by (simp add: near_def)

lemma near_nonneg: "0 \<le> x \<Longrightarrow> near k a x \<Longrightarrow> 0 \<le> a"
proof -
  assume x: "0 \<le> x" and n: "near k a x"
  have "0 \<le> x * (1 - ulp) ^ k" using x ulp_bounds(3) by simp
  with n show ?thesis by (simp add: near_def)
qed

lemma fl64_interval:
  assumes "0 \<le> a"
  shows "a * (1 - ulp) \<le> fl64 a \<and> fl64 a \<le> a * (1 + ulp)"
proof -
  from fl64_error [of a] assms have "\<bar>fl64 a - a\<bar> \<le> a * ulp"
    by (simp add: ulp_def)
  then show ?thesis by (simp add: abs_le_iff algebra_simps)
qed

lemma near_fl:
  assumes x: "0 \<le> x" and n: "near k a x"
  shows "near (k + 1) (fl64 a) x"
proof -
  from near_nonneg [OF x n] have a: "0 \<le> a" .
  note iv = fl64_interval [OF a]
  from n have lo: "x * (1 - ulp) ^ k \<le> a" and hi: "a \<le> x * (1 + ulp) ^ k"
    by (simp_all add: near_def)
  have "x * (1 - ulp) ^ Suc k = (x * (1 - ulp) ^ k) * (1 - ulp)" by simp
  also have "\<dots> \<le> a * (1 - ulp)" using lo ulp_bounds(3) by (rule mult_right_mono)
  also have "\<dots> \<le> fl64 a" using iv by simp
  finally have l: "x * (1 - ulp) ^ Suc k \<le> fl64 a" .
  have "fl64 a \<le> a * (1 + ulp)" using iv by simp
  also have "\<dots> \<le> (x * (1 + ulp) ^ k) * (1 + ulp)"
    using hi ulp_bounds(1) by (intro mult_right_mono) simp_all
  also have "\<dots> = x * (1 + ulp) ^ Suc k" by simp
  finally have "fl64 a \<le> x * (1 + ulp) ^ Suc k" .
  with l show ?thesis by (simp add: near_def)
qed

lemma near_mult:
  assumes x: "0 \<le> x" and y: "0 \<le> y" and na: "near j a x" and nb: "near k b y"
  shows "near (j + k) (a * b) (x * y)"
proof -
  from na have alo: "x * (1 - ulp) ^ j \<le> a" and ahi: "a \<le> x * (1 + ulp) ^ j"
    by (simp_all add: near_def)
  from nb have blo: "y * (1 - ulp) ^ k \<le> b" and bhi: "b \<le> y * (1 + ulp) ^ k"
    by (simp_all add: near_def)
  have a: "0 \<le> a" and b: "0 \<le> b" using near_nonneg x y na nb by blast+
  have p1: "0 \<le> x * (1 - ulp) ^ j" "0 \<le> y * (1 - ulp) ^ k"
    using x y ulp_bounds(3) by simp_all
  have "(x * (1 - ulp) ^ j) * (y * (1 - ulp) ^ k) \<le> a * b"
    using alo blo p1 a by (intro mult_mono) simp_all
  then have lo: "(x * y) * (1 - ulp) ^ (j + k) \<le> a * b"
    by (simp add: power_add mult_ac)
  have "a * b \<le> (x * (1 + ulp) ^ j) * (y * (1 + ulp) ^ k)"
    using ahi bhi a b x ulp_bounds(1) by (intro mult_mono) simp_all
  then have "a * b \<le> (x * y) * (1 + ulp) ^ (j + k)"
    by (simp add: power_add mult_ac)
  with lo show ?thesis by (simp add: near_def)
qed

lemma near_mono:
  assumes x: "0 \<le> x" and n: "near j a x" and jk: "j \<le> k"
  shows "near k a x"
proof -
  from n have lo: "x * (1 - ulp) ^ j \<le> a" and hi: "a \<le> x * (1 + ulp) ^ j"
    by (simp_all add: near_def)
  have "(1 - ulp) ^ k \<le> (1 - ulp) ^ j"
    using jk ulp_bounds(3,4) by (rule power_decreasing)
  then have "x * (1 - ulp) ^ k \<le> x * (1 - ulp) ^ j" using x by (rule mult_left_mono)
  with lo have l: "x * (1 - ulp) ^ k \<le> a" by simp
  have "(1 + ulp) ^ j \<le> (1 + ulp) ^ k"
    using jk ulp_bounds(5) by (rule power_increasing)
  then have "x * (1 + ulp) ^ j \<le> x * (1 + ulp) ^ k" using x by (rule mult_left_mono)
  with hi l show ?thesis by (simp add: near_def)
qed

lemma near_add:
  assumes "near k a x" and "near k b y"
  shows "near k (a + b) (x + y)"
  using assms by (simp add: near_def algebra_simps add_mono)

lemma ulp_six:
  "1 - 1 / 2 ^ 50 \<le> (1 - ulp) ^ 6" "(1 + ulp) ^ 6 \<le> 1 + 1 / 2 ^ 50"
proof -
  have sq: "(1 - ulp) ^ 2 = 1 - 2 * ulp + ulp ^ 2" "(1 + ulp) ^ 2 = 1 + 2 * ulp + ulp ^ 2"
    by (simp_all add: power2_eq_square algebra_simps)
  have u2: "0 \<le> ulp ^ 2" "ulp ^ 2 \<le> ulp / 2 ^ 53"
    by (simp_all add: ulp_def power2_eq_square)
  have u: "0 < ulp" "ulp = 1 / 2 ^ 53" by (simp_all add: ulp_def)
  define a where "a = (1 - ulp) ^ 2"
  define c where "c = (1 + ulp) ^ 2"
  have a: "1 - 2 * ulp \<le> a" "a \<le> 1" "0 \<le> a"
    using sq(1) u2 u by (simp_all add: a_def)
  have c: "1 \<le> c" "c \<le> 1 + 2 * ulp + ulp / 2 ^ 53"
    using sq(2) u2 u by (simp_all add: c_def)
  have six: "(1 - ulp) ^ 6 = a * a * a" "(1 + ulp) ^ 6 = c * c * c"
    by (simp_all add: a_def c_def power2_eq_square eval_nat_numeral)
  have lo1: "1 - 2 * ulp \<le> a" by (rule a(1))
  have pos: "0 \<le> 1 - 2 * ulp" by (simp add: u(2))
  have "(1 - 2 * ulp) * (1 - 2 * ulp) \<le> a * a"
    using a(1) pos a(3) by (intro mult_mono) simp_all
  moreover have "0 \<le> (1 - 2 * ulp) * (1 - 2 * ulp)" using pos by simp
  ultimately have "(1 - 2 * ulp) * (1 - 2 * ulp) * (1 - 2 * ulp) \<le> a * a * a"
    using a(1) pos a(3) by (intro mult_mono) simp_all
  moreover have "1 - 1 / 2 ^ 50 \<le> (1 - 2 * ulp) * (1 - 2 * ulp) * (1 - 2 * ulp)"
    by (simp add: u(2))
  ultimately show "1 - 1 / 2 ^ 50 \<le> (1 - ulp) ^ 6" unfolding six by linarith
  define h where "h = 1 + 2 * ulp + ulp / 2 ^ 53"
  have h: "0 \<le> h" "c \<le> h" "0 \<le> c" using c u by (simp_all add: h_def)
  have "c * c \<le> h * h" using h by (intro mult_mono) simp_all
  moreover have "0 \<le> c * c" using h by simp
  ultimately have "c * c * c \<le> h * h * h" using h by (intro mult_mono) simp_all
  moreover have "h * h * h \<le> 1 + 1 / 2 ^ 50" by (simp add: h_def u(2))
  ultimately show "(1 + ulp) ^ 6 \<le> 1 + 1 / 2 ^ 50" unfolding six by linarith
qed

lemma near_six:
  assumes x: "0 \<le> x" and n: "near 6 a x"
  shows "x - x / 2 ^ 50 \<le> a \<and> a \<le> x + x / 2 ^ 50"
proof -
  note lo = ulp_six(1) and hi = ulp_six(2)
  from n have "x * (1 - ulp) ^ 6 \<le> a" "a \<le> x * (1 + ulp) ^ 6" by (simp_all add: near_def)
  moreover have "x * (1 - 1 / 2 ^ 50) \<le> x * (1 - ulp) ^ 6" using lo x by (rule mult_left_mono)
  moreover have "x * (1 + ulp) ^ 6 \<le> x * (1 + 1 / 2 ^ 50)" using hi x by (rule mult_left_mono)
  ultimately show ?thesis by (simp add: algebra_simps)
qed

lemma sleepDur_near:
  assumes b: "0 \<le> b" and i: "0 \<le> i"
  shows "near 6 (fmul (float64_of_int b) (fadd 1 (fmul (float64_of_int i) (fl64 (35 / 100)))))
           (spec_backoff b (nat i))"
proof -
  have rb: "(0::rat) \<le> of_int b" and ri: "(0::rat) \<le> of_int i" using b i by simp_all
  have c0: "(0::rat) \<le> 35 / 100" by simp
  have fb: "near 1 (float64_of_int b) (of_int b)"
    unfolding float64_of_int_def using near_fl [OF rb near_refl] by simp
  have fi: "near 1 (float64_of_int i) (of_int i)"
    unfolding float64_of_int_def using near_fl [OF ri near_refl] by simp
  have c: "near 1 (fl64 (35 / 100)) (35 / 100)"
    using near_fl [OF c0 near_refl] by simp
  have "near (1 + 1) (float64_of_int i * fl64 (35 / 100)) (of_int i * (35 / 100))"
    by (rule near_mult [OF ri c0 fi c])
  then have m: "near 2 (float64_of_int i * fl64 (35 / 100)) (of_int i * (35 / 100))"
    by (simp only: one_add_one)
  have pnn: "(0::rat) \<le> of_int i * (35 / 100)" using ri by simp
  have "near (2 + 1) (fl64 (float64_of_int i * fl64 (35 / 100))) (of_int i * (35 / 100))"
    by (rule near_fl [OF pnn m])
  then have p: "near 3 (fmul (float64_of_int i) (fl64 (35 / 100))) (of_int i * (35 / 100))"
    by (simp add: fmul_def)
  have one: "near 3 1 1" by (rule near_mono [OF _ near_refl]) simp_all
  have s: "near 3 (1 + fmul (float64_of_int i) (fl64 (35 / 100))) (1 + of_int i * (35 / 100))"
    using near_add [OF one p] .
  have snn: "(0::rat) \<le> 1 + of_int i * (35 / 100)" using pnn by simp
  have "near (3 + 1) (fl64 (1 + fmul (float64_of_int i) (fl64 (35 / 100))))
      (1 + of_int i * (35 / 100))"
    by (rule near_fl [OF snn s])
  then have q: "near 4 (fadd 1 (fmul (float64_of_int i) (fl64 (35 / 100))))
      (1 + of_int i * (35 / 100))"
    by (simp add: fadd_def)
  have "near (1 + 4) (float64_of_int b * fadd 1 (fmul (float64_of_int i) (fl64 (35 / 100))))
      (of_int b * (1 + of_int i * (35 / 100)))"
    by (rule near_mult [OF rb snn fb q])
  then have t: "near 5 (float64_of_int b * fadd 1 (fmul (float64_of_int i) (fl64 (35 / 100))))
      (of_int b * (1 + of_int i * (35 / 100)))"
    by simp
  have tnn: "(0::rat) \<le> of_int b * (1 + of_int i * (35 / 100))" using rb snn by simp
  have "near (5 + 1)
      (fl64 (float64_of_int b * fadd 1 (fmul (float64_of_int i) (fl64 (35 / 100)))))
      (of_int b * (1 + of_int i * (35 / 100)))"
    by (rule near_fl [OF tnn t])
  then have "near 6 (fmul (float64_of_int b) (fadd 1 (fmul (float64_of_int i) (fl64 (35 / 100)))))
      (of_int b * (1 + of_int i * (35 / 100)))"
    by (simp add: fmul_def [of "float64_of_int b"])
  moreover have "spec_backoff b (nat i) = of_int b * (1 + of_int i * (35 / 100))"
    using i by (simp add: spec_backoff_def)
  ultimately show ?thesis by simp
qed

lemma sleepDur_close:
  assumes b: "0 \<le> b" and i: "0 \<le> i" and small: "spec_backoff b (nat i) < 2 ^ 50"
  shows "\<exists>d. sleepDur b i = Some d \<and>
           spec_backoff b (nat i) - 2 < of_int d \<and> of_int d < spec_backoff b (nat i) + 1"
proof -
  define x where "x = spec_backoff b (nat i)"
  define y where "y = fmul (float64_of_int b) (fadd 1 (fmul (float64_of_int i) (fl64 (35 / 100))))"
  define h where "h = x / 2 ^ 50"
  have x: "0 \<le> x" using b i by (simp add: x_def spec_backoff_def)
  have n: "near 6 y x" unfolding x_def y_def by (rule sleepDur_near [OF b i])
  from near_six [OF x n] have iv: "x - h \<le> y" "y \<le> x + h" by (simp_all add: h_def)
  from small have xs: "x < 2 ^ 50" by (simp add: x_def)
  then have "h < 1" by (simp add: h_def divide_less_eq)
  with iv have close: "x - 1 < y" "y < x + 1" by linarith+
  from near_nonneg [OF x n] have y: "0 \<le> y" .
  have fl: "of_int \<lfloor>y\<rfloor> \<le> y" "y < of_int \<lfloor>y\<rfloor> + 1" by linarith+
  from y have f0: "0 \<le> \<lfloor>y\<rfloor>" by simp
  from close(2) xs have "y < of_int (2 ^ 63)" by simp
  then have f1: "\<lfloor>y\<rfloor> < 2 ^ 63" by (simp only: floor_less_iff)
  have "sleepDur b i = int64_of_float64 y" by (simp only: sleepDur_def y_def)
  also have "\<dots> = Some \<lfloor>y\<rfloor>"
  proof -
    have "- (2 ^ 63) \<le> \<lfloor>y\<rfloor>" using f0 by simp
    with y f1 show ?thesis by (simp only: int64_of_float64_def Let_def if_True simp_thms)
  qed
  finally have "sleepDur b i = Some \<lfloor>y\<rfloor>" .
  moreover have "x - 2 < of_int \<lfloor>y\<rfloor>" "of_int \<lfloor>y\<rfloor> < x + 1" using fl close by linarith+
  ultimately show ?thesis unfolding x_def by blast
qed

section \<open>Properties of SafeRetry\<close>

subsection \<open>One round of the loop\<close>

lemma retry_loop_stop:
  "\<not> i < n \<Longrightarrow> retry_loop a n b fn i l w = (Some (Errorf_retry a l), w, [])"
  by (simp add: retry_loop.simps)

lemma retry_loop_ok:
  "i < n \<Longrightarrow> fn w = (None, w1) \<Longrightarrow> retry_loop a n b fn i l w = (None, w1, [Invoke None])"
  by (simp add: retry_loop.simps)

lemma retry_loop_fail:
  "i < n \<Longrightarrow> fn w = (Some e, w1) \<Longrightarrow>
   retry_loop a n b fn i l w =
     (case retry_loop a n b fn (i + 1) (Some e) (Sleep (sleepDur b i) w1) of
        (r, w2, tr) \<Rightarrow> (r, w2, Invoke (Some e) # Slept (sleepDur b i) # tr))"
  by (simp add: retry_loop.simps [of a n b fn i l w] Let_def)

lemma retry_loop_shape:
  "retry_loop a n b fn i l w = (r, w2, tr) \<Longrightarrow>
   tr = backoff_trace b i (failures tr) @ (if r = None then [Invoke None] else []) \<and>
   int (length (failures tr)) \<le> max 0 (n - i) \<and>
   (r = None \<longrightarrow> int (length (failures tr)) < n - i) \<and>
   (r \<noteq> None \<longrightarrow> int (length (failures tr)) = max 0 (n - i) \<and>
      r = Some (Errorf_retry a (if failures tr = [] then l else Some (last (failures tr)))))"
proof (induction a n b fn i l w arbitrary: r w2 tr rule: retry_loop.induct)
  case (1 a n b fn i l w)
  show ?case
  proof (cases "i < n")
    case False
    with "1.prems" show ?thesis by (auto simp: retry_loop_stop)
  next
    case True
    obtain x w1 where fw: "fn w = (x, w1)" by (cases "fn w")
    show ?thesis
    proof (cases x)
      case None
      with True fw "1.prems" show ?thesis by (auto simp: retry_loop_ok)
    next
      case (Some e)
      obtain r' w' tr' where rec:
        "retry_loop a n b fn (i + 1) (Some e) (Sleep (sleepDur b i) w1) = (r', w', tr')"
        by (cases "retry_loop a n b fn (i + 1) (Some e) (Sleep (sleepDur b i) w1)")
      from True fw Some rec "1.prems"
      have eq: "r = r'" "w2 = w'" "tr = Invoke (Some e) # Slept (sleepDur b i) # tr'"
        by (simp_all add: retry_loop_fail)
      have ih: "tr' = backoff_trace b (i + 1) (failures tr') @ (if r' = None then [Invoke None] else []) \<and>
   int (length (failures tr')) \<le> max 0 (n - (i + 1)) \<and>
   (r' = None \<longrightarrow> int (length (failures tr')) < n - (i + 1)) \<and>
   (r' \<noteq> None \<longrightarrow> int (length (failures tr')) = max 0 (n - (i + 1)) \<and>
      r' = Some (Errorf_retry a (if failures tr' = [] then Some e else Some (last (failures tr')))))"
        using "1.IH" [OF True fw [symmetric] Some refl rec] .
      from ih eq True show ?thesis by auto
    qed
  qed
qed

lemma results_append: "results (xs @ ys) = results xs @ results ys"
  by (induction xs rule: results.induct) simp_all

lemma failures_append: "failures (xs @ ys) = failures xs @ failures ys"
  by (induction xs rule: failures.induct) simp_all

lemma sleeps_append: "sleeps (xs @ ys) = sleeps xs @ sleeps ys"
  by (induction xs rule: sleeps.induct) simp_all

lemma results_backoff_trace: "results (backoff_trace b i es) = map Some es"
  by (induction es arbitrary: i) simp_all

lemma sleeps_backoff_trace: "length (sleeps (backoff_trace b i es)) = length es"
  by (induction es arbitrary: i) simp_all

lemma sleep_after_failure_backoff:
  "sleep_after_failure (backoff_trace b i es @ rest) = sleep_after_failure rest"
  by (induction es arbitrary: i) simp_all

lemma last_backoff_trace:
  "es \<noteq> [] \<Longrightarrow> last (backoff_trace b i es) = Slept (sleepDur b (i + int (length es) - 1))"
proof (induction es arbitrary: i)
  case Nil
  then show ?case by simp
next
  case (Cons e es)
  show ?case
  proof (cases es)
    case Nil
    then show ?thesis by simp
  next
    case (Cons e' es')
    then have "last (backoff_trace b (i + 1) es) = Slept (sleepDur b (i + 1 + int (length es) - 1))"
      using Cons.IH [of "i + 1"] by simp
    with Cons show ?thesis by (simp add: algebra_simps)
  qed
qed

lemma SafeRetry_shape:
  assumes "SafeRetry a n b fn w = (r, w2, tr)"
  shows "tr = backoff_trace b 0 (failures tr) @ (if r = None then [Invoke None] else [])"
    and "r = None \<Longrightarrow> int (length (failures tr)) < max 1 n"
    and "r \<noteq> None \<Longrightarrow> int (length (failures tr)) = max 1 n"
    and "r \<noteq> None \<Longrightarrow> r = Some (Errorf_retry a (Some (last (failures tr))))"
proof -
  from assms have loop: "retry_loop a (max 1 n) b fn 0 None w = (r, w2, tr)"
    by (simp add: SafeRetry_def max_def split: if_splits)
  note sh = retry_loop_shape [OF loop]
  from sh show "tr = backoff_trace b 0 (failures tr) @ (if r = None then [Invoke None] else [])"
    by simp
  from sh show "r = None \<Longrightarrow> int (length (failures tr)) < max 1 n" by simp
  from sh show len: "r \<noteq> None \<Longrightarrow> int (length (failures tr)) = max 1 n" by simp
  show "r \<noteq> None \<Longrightarrow> r = Some (Errorf_retry a (Some (last (failures tr))))"
  proof -
    assume nz: "r \<noteq> None"
    with len have "failures tr \<noteq> []" by auto
    with sh nz show ?thesis by simp
  qed
qed

lemma SafeRetry_results:
  assumes "SafeRetry a n b fn w = (r, w2, tr)"
  shows "results tr = map Some (failures tr) @ (if r = None then [None] else [])"
proof -
  have "results tr =
      results (backoff_trace b 0 (failures tr) @ (if r = None then [Invoke None] else []))"
    using SafeRetry_shape(1) [OF assms] by simp
  then show ?thesis by (simp add: results_append results_backoff_trace)
qed

lemma retry_loop_relabel:
  "retry_loop a n b fn i l w = (r, w2, tr) \<Longrightarrow>
   \<exists>r'. retry_loop a n b (relabel h fn) i l' w = (r', w2, map (relabel_event h) tr) \<and>
        (r' = None) = (r = None)"
proof (induction a n b fn i l w arbitrary: r w2 tr l' rule: retry_loop.induct)
  case (1 a n b fn i l w)
  show ?case
  proof (cases "i < n")
    case False
    with "1.prems" show ?thesis by (auto simp: retry_loop_stop)
  next
    case True
    obtain x w1 where fw: "fn w = (x, w1)" by (cases "fn w")
    show ?thesis
    proof (cases x)
      case None
      with fw have "relabel h fn w = (None, w1)" by (simp add: relabel_def)
      with True fw None "1.prems" show ?thesis by (auto simp: retry_loop_ok)
    next
      case (Some e)
      obtain r0 w0 tr0 where rec:
        "retry_loop a n b fn (i + 1) (Some e) (Sleep (sleepDur b i) w1) = (r0, w0, tr0)"
        by (cases "retry_loop a n b fn (i + 1) (Some e) (Sleep (sleepDur b i) w1)")
      from True fw Some rec "1.prems"
      have eq: "r = r0" "w2 = w0" "tr = Invoke (Some e) # Slept (sleepDur b i) # tr0"
        by (simp_all add: retry_loop_fail)
      from "1.IH" [OF True fw [symmetric] Some refl rec, of "Some (h e)"]
      obtain r' where ih:
        "retry_loop a n b (relabel h fn) (i + 1) (Some (h e)) (Sleep (sleepDur b i) w1) =
           (r', w0, map (relabel_event h) tr0)" "(r' = None) = (r0 = None)"
        by blast
      from fw Some have "relabel h fn w = (Some (h e), w1)" by (simp add: relabel_def)
      with True ih eq show ?thesis by (simp add: retry_loop_fail)
    qed
  qed
qed

subsection \<open>The claims about SafeRetry\<close>

text \<open>
  C1, as amended. For \<open>retries = n \<ge> 1\<close>, SafeRetry invokes \<open>fn\<close> at most \<open>n\<close> times and
  no invocation follows one that returned \<open>nil\<close>; its trace is a run of failed invocations,
  the \<open>i\<close>-th of them (counted from 0) followed by a sleep of \<open>sleepDur baseSleep i\<close>, and
  then the successful invocation, if there is one. \<open>sleepDur baseSleep i\<close> is
  \<open>baseSleep * (1 + i*0.35)\<close> computed in \<open>float64\<close> and cut to whole nanoseconds: for a
  base that is not negative and a product below \<open>2^50\<close> nanoseconds, a whole number less
  than two nanoseconds below and less than one above the exact product.
\<close>

theorem SafeRetry_bounded_backoff:
  assumes "1 \<le> n"
  shows "length (results (trace_of (SafeRetry a n b fn w))) \<le> nat n \<and>
     None \<notin> set (butlast (results (trace_of (SafeRetry a n b fn w)))) \<and>
     trace_of (SafeRetry a n b fn w) =
       backoff_trace b 0 (failures (trace_of (SafeRetry a n b fn w))) @
       (if result_of (SafeRetry a n b fn w) = None then [Invoke None] else []) \<and>
     (\<forall>i. 0 \<le> b \<and> 0 \<le> i \<and> spec_backoff b (nat i) < 2 ^ 50 \<longrightarrow>
        (\<exists>d. sleepDur b i = Some d \<and>
           spec_backoff b (nat i) - 2 < of_int d \<and> of_int d < spec_backoff b (nat i) + 1))"
proof -
  obtain r w2 tr where run: "SafeRetry a n b fn w = (r, w2, tr)"
    by (cases "SafeRetry a n b fn w")
  note shape = SafeRetry_shape [OF run]
  note res = SafeRetry_results [OF run]
  have count: "length (results tr) \<le> nat n"
  proof (cases "r = None")
    case True
    with shape(2) assms res show ?thesis by simp
  next
    case False
    with shape(3) assms res show ?thesis by simp
  qed
  have early: "None \<notin> set (butlast (results tr))"
  proof (cases "r = None")
    case True
    with res show ?thesis by auto
  next
    case False
    with res have "results tr = map Some (failures tr)" by simp
    then have "set (butlast (results tr)) \<subseteq> Some ` set (failures tr)"
      using in_set_butlastD by fastforce
    then show ?thesis by auto
  qed
  have near_formula: "\<forall>i. 0 \<le> b \<and> 0 \<le> i \<and> spec_backoff b (nat i) < 2 ^ 50 \<longrightarrow>
      (\<exists>d. sleepDur b i = Some d \<and>
         spec_backoff b (nat i) - 2 < of_int d \<and> of_int d < spec_backoff b (nat i) + 1)"
    using sleepDur_close by blast
  from count early shape(1) near_formula show ?thesis
    unfolding run trace_of_def result_of_def by simp
qed

text \<open>
  An instance of the theorem: two throttled calls, then a success, with three attempts
  allowed.
\<close>

theorem SafeRetry_bounded_backoff_witness:
  "(1::int) \<le> 3 \<and> (0::int) \<le> 1200 * Millisecond \<and>
   spec_backoff (1200 * Millisecond) (nat 1) < 2 ^ 50 \<and>
   length (results (trace_of (SafeRetry ''delete'' 3 (1200 * Millisecond)
      (call_err (DeleteInstance ''vm'')) (world0 (failing_first 2))))) \<le> nat 3 \<and>
   trace_of (SafeRetry ''delete'' 3 (1200 * Millisecond)
      (call_err (DeleteInstance ''vm'')) (world0 (failing_first 2))) =
     [Invoke (Some (Err ''throttled'')), Slept (Some 1200000000),
      Invoke (Some (Err ''throttled'')), Slept (Some 1620000000), Invoke None] \<and>
   (\<exists>d. sleepDur (1200 * Millisecond) 1 = Some d \<and>
      spec_backoff (1200 * Millisecond) (nat 1) - 2 < of_int d \<and>
      of_int d < spec_backoff (1200 * Millisecond) (nat 1) + 1)"
proof -
  have h: "(1::int) \<le> 3" by simp
  have g: "(0::int) \<le> 1200 * Millisecond"
    "spec_backoff (1200 * Millisecond) (nat 1) < 2 ^ 50"
    by (simp_all add: Millisecond_def spec_backoff_def)
  have tr: "trace_of (SafeRetry ''delete'' 3 (1200 * Millisecond)
      (call_err (DeleteInstance ''vm'')) (world0 (failing_first 2))) =
     [Invoke (Some (Err ''throttled'')), Slept (Some 1200000000),
      Invoke (Some (Err ''throttled'')), Slept (Some 1620000000), Invoke None]"
    by code_simp
  from SafeRetry_bounded_backoff [OF h, of "''delete''" "1200 * Millisecond"
      "call_err (DeleteInstance ''vm'')" "world0 (failing_first 2)"]
  have "length (results (trace_of (SafeRetry ''delete'' 3 (1200 * Millisecond)
      (call_err (DeleteInstance ''vm'')) (world0 (failing_first 2))))) \<le> nat 3"
    and "\<forall>i. 0 \<le> 1200 * Millisecond \<and> 0 \<le> i \<and>
        spec_backoff (1200 * Millisecond) (nat i) < 2 ^ 50 \<longrightarrow>
        (\<exists>d. sleepDur (1200 * Millisecond) i = Some d \<and>
           spec_backoff (1200 * Millisecond) (nat i) - 2 < of_int d \<and>
           of_int d < spec_backoff (1200 * Millisecond) (nat i) + 1)"
    by blast+
  with g tr h show ?thesis by (metis zero_le_one)
qed

text \<open>
  C1 as it is stated fails: the sleep is not the exact product. With the constants of
  DeleteInstanceWithStaticIPCleanup (8 attempts, 1200 ms) and a call that keeps failing,
  the sleep after failed invocation 6 is 3719999999 ns, where the formula gives
  3720000000 ns.
\<close>

theorem SafeRetry_backoff_counterexample:
  "sleeps (trace_of (SafeRetry ''delete'' 8 (1200 * Millisecond)
      (call_err (DeleteInstance ''vm'')) (world0 (failing_first 8)))) ! 6 = Some 3719999999 \<and>
   spec_backoff (1200 * Millisecond) 6 = 3720000000"
  by code_simp

text \<open>
  C2. SafeRetry returns \<open>nil\<close> exactly when one of its invocations of \<open>fn\<close>, of which
  there are at most the fixed count, returned \<open>nil\<close>; otherwise it returns the formatted
  error around the error of the last invocation. The retry decision does not look at the
  error: replacing every error that \<open>fn\<close> returns by any other error (\<open>relabel h\<close>) leaves
  the final world, the number and order of invocations and sleeps, and whether the result
  is \<open>nil\<close> as they were.
\<close>

theorem SafeRetry_blind:
  "result_of (SafeRetry a n b fn w) =
     (if None \<in> set (results (trace_of (SafeRetry a n b fn w))) then None
      else Some (Errorf_retry a (last (results (trace_of (SafeRetry a n b fn w)))))) \<and>
   length (results (trace_of (SafeRetry a n b fn w))) \<le> nat (max 1 n) \<and>
   world_of (SafeRetry a n b (relabel h fn) w) = world_of (SafeRetry a n b fn w) \<and>
   trace_of (SafeRetry a n b (relabel h fn) w) =
     map (relabel_event h) (trace_of (SafeRetry a n b fn w)) \<and>
   (result_of (SafeRetry a n b (relabel h fn) w) = None) =
     (result_of (SafeRetry a n b fn w) = None)"
proof -
  obtain r w2 tr where run: "SafeRetry a n b fn w = (r, w2, tr)"
    by (cases "SafeRetry a n b fn w")
  note shape = SafeRetry_shape [OF run]
  note res = SafeRetry_results [OF run]
  have result: "r = (if None \<in> set (results tr) then None
      else Some (Errorf_retry a (last (results tr))))"
  proof (cases "r = None")
    case True
    with res show ?thesis by simp
  next
    case False
    with shape(3) have ne: "failures tr \<noteq> []" by auto
    from False res have eq: "results tr = map Some (failures tr)" by simp
    with ne have "last (results tr) = Some (last (failures tr))"
      by (simp add: last_map)
    moreover from eq have "None \<notin> set (results tr)" by auto
    ultimately show ?thesis using shape(4) [OF False] by simp
  qed
  have count: "length (results tr) \<le> nat (max 1 n)"
  proof (cases "r = None")
    case True
    with shape(2) res show ?thesis by simp
  next
    case False
    with shape(3) res show ?thesis by simp
  qed
  from run have loop: "retry_loop a (max 1 n) b fn 0 None w = (r, w2, tr)"
    by (simp add: SafeRetry_def max_def split: if_splits)
  from retry_loop_relabel [OF loop, of h None]
  obtain r' where "retry_loop a (max 1 n) b (relabel h fn) 0 None w =
      (r', w2, map (relabel_event h) tr)" and nil: "(r' = None) = (r = None)"
    by blast
  then have run': "SafeRetry a n b (relabel h fn) w = (r', w2, map (relabel_event h) tr)"
    by (simp add: SafeRetry_def max_def split: if_splits)
  from result count nil show ?thesis
    unfolding run run' by (simp add: trace_of_def result_of_def world_of_def)
qed

text \<open>
  C9. For every value of \<open>retries\<close>, SafeRetry invokes \<open>fn\<close> at least once; a value below
  1 behaves as 1. Every failed invocation is followed by a sleep, so there are as many
  sleeps as failures, and when all attempts fail the last thing SafeRetry does is the
  sleep of the last round.
\<close>

theorem SafeRetry_at_least_once:
  "results (trace_of (SafeRetry a n b fn w)) \<noteq> [] \<and>
   length (results (trace_of (SafeRetry a n b fn w))) \<le> nat (max 1 n) \<and>
   SafeRetry a n b fn w = SafeRetry a (max 1 n) b fn w \<and>
   sleep_after_failure (trace_of (SafeRetry a n b fn w)) \<and>
   length (sleeps (trace_of (SafeRetry a n b fn w))) =
     length (failures (trace_of (SafeRetry a n b fn w))) \<and>
   last (trace_of (SafeRetry a n b fn w)) =
     (if result_of (SafeRetry a n b fn w) = None then Invoke None
      else Slept (sleepDur b (max 1 n - 1)))"
proof -
  obtain r w2 tr where run: "SafeRetry a n b fn w = (r, w2, tr)"
    by (cases "SafeRetry a n b fn w")
  note shape = SafeRetry_shape [OF run]
  note res = SafeRetry_results [OF run]
  have once: "results tr \<noteq> []"
  proof (cases "r = None")
    case True
    with res show ?thesis by simp
  next
    case False
    with shape(3) have "failures tr \<noteq> []" by auto
    with res show ?thesis by simp
  qed
  have count: "length (results tr) \<le> nat (max 1 n)"
  proof (cases "r = None")
    case True
    with shape(2) res show ?thesis by simp
  next
    case False
    with shape(3) res show ?thesis by simp
  qed
  have coerced: "SafeRetry a n b fn w = SafeRetry a (max 1 n) b fn w"
    by (simp add: SafeRetry_def max_def)
  have follows: "sleep_after_failure tr"
  proof -
    have "sleep_after_failure
        (backoff_trace b 0 (failures tr) @ (if r = None then [Invoke None] else []))"
      by (simp add: sleep_after_failure_backoff)
    with shape(1) show ?thesis by simp
  qed
  have slept: "length (sleeps tr) = length (failures tr)"
  proof -
    have "length (sleeps
        (backoff_trace b 0 (failures tr) @ (if r = None then [Invoke None] else []))) =
        length (failures tr)"
      by (simp add: sleeps_append sleeps_backoff_trace)
    with shape(1) show ?thesis by simp
  qed
  have final: "last tr = (if r = None then Invoke None else Slept (sleepDur b (max 1 n - 1)))"
  proof (cases "r = None")
    case True
    have "last (backoff_trace b 0 (failures tr) @ [Invoke None]) = Invoke None" by simp
    with True shape(1) show ?thesis by simp
  next
    case False
    with shape(3) have len: "int (length (failures tr)) = max 1 n" by simp
    then have ne: "failures tr \<noteq> []" by auto
    from False have "(if r = None then [Invoke None] else []) = ([]::event list)" by simp
    with shape(1) have "tr = backoff_trace b 0 (failures tr)" by (simp only: append_Nil2)
    then have "last tr = last (backoff_trace b 0 (failures tr))" by simp
    with last_backoff_trace [OF ne, of b 0] len False show ?thesis by simp
  qed
  from once count follows slept final show ?thesis
    unfolding coerced [symmetric] run by (simp add: trace_of_def result_of_def)
qed

section \<open>Properties of sanitize\<close>

lemma decodeRune_ascii:
  "b0 < 128 \<Longrightarrow> decodeRune (b0 # bs) = (b0, 1)"
  by simp

lemma decodeRune_high:
  "128 \<le> b0 \<Longrightarrow> decodeRune (b0 # bs) = (r, w) \<Longrightarrow>
   128 \<le> r \<and> 1 \<le> w \<and> w \<le> Suc (length bs) \<and> (\<forall>b \<in> set (take (w - 1) bs). 128 \<le> b)"
  by (auto simp: cont_def RuneError_def split: list.splits if_splits)

lemma allowed_ascii: "allowed r \<Longrightarrow> r < 128"
  by (auto simp: allowed_def)

lemma allowed_of_char:
  "allowed (of_char c) =
     ((CHR ''a'' \<le> c \<and> c \<le> CHR ''z'') \<or> (CHR ''0'' \<le> c \<and> c \<le> CHR ''9'') \<or> c = CHR ''-'')"
proof -
  have "(of_char c = (of_char CHR ''-'' :: nat)) = (c = CHR ''-'')"
    by (rule of_char_eq_iff)
  then show ?thesis by (simp only: allowed_def less_eq_char_def)
qed

lemma filter_high_bytes:
  assumes "\<forall>b \<in> set (map of_char cs). (128::nat) \<le> b"
  shows "filter (\<lambda>c. allowed (of_char c)) cs = []"
  using assms by (induction cs) (auto dest: allowed_ascii)

lemma sanitize_loop:
  "foldl (\<lambda>b r. if allowed r then WriteRune b r else b) acc (runes t) =
   acc @ filter (\<lambda>c. allowed (of_char c)) t"
proof (induction t arbitrary: acc rule: runes.induct)
  case (1 s)
  show ?case
  proof (cases s)
    case Nil
    then show ?thesis by (simp add: runes.simps)
  next
    case (Cons c cs)
    define b0 :: nat where "b0 = of_char c"
    obtain r w where dec: "decodeRune (map of_char s) = (r, w)"
      by (cases "decodeRune (map of_char s)")
    from Cons have ne: "s \<noteq> []" by simp
    have unfold: "runes s = r # runes (drop w s)"
      using ne dec by (simp add: runes.simps [of s])
    note ih = "1.IH" [OF ne dec [symmetric]]
    show ?thesis
    proof (cases "b0 < 128")
      case True
      with dec Cons have rw: "r = b0" "w = 1" by (simp_all add: b0_def)
      have step: "(if allowed r then WriteRune acc r else acc) =
          acc @ filter (\<lambda>c. allowed (of_char c)) [c]"
        using rw True by (simp add: WriteRune_def encodeRune_def b0_def)
      have "foldl (\<lambda>b r. if allowed r then WriteRune b r else b) acc (runes s) =
          foldl (\<lambda>b r. if allowed r then WriteRune b r else b)
            (acc @ filter (\<lambda>c. allowed (of_char c)) [c]) (runes (drop w s))"
        unfolding unfold using step by simp
      also have "\<dots> = (acc @ filter (\<lambda>c. allowed (of_char c)) [c]) @
          filter (\<lambda>c. allowed (of_char c)) (drop w s)"
        by (rule ih)
      also have "\<dots> = acc @ filter (\<lambda>c. allowed (of_char c)) s"
        using Cons rw by simp
      finally show ?thesis .
    next
      case False
      then have hi: "128 \<le> b0" by simp
      from dec Cons have "decodeRune (b0 # map of_char cs) = (r, w)" by (simp add: b0_def)
      from decodeRune_high [OF hi this]
      have r: "128 \<le> r" and w: "1 \<le> w" "w \<le> Suc (length cs)"
        and rest: "\<forall>b \<in> set (take (w - 1) (map of_char cs)). (128::nat) \<le> b"
        by auto
      from r have nr: "\<not> allowed r" by (auto dest: allowed_ascii)
      from w Cons have tk: "take w s = c # take (w - 1) cs" by (cases w) simp_all
      have "\<forall>b \<in> set (map of_char (take w s)). (128::nat) \<le> b"
        using rest hi by (simp add: tk b0_def take_map)
      then have dropped: "filter (\<lambda>c. allowed (of_char c)) (take w s) = []"
        by (rule filter_high_bytes)
      have "filter (\<lambda>c. allowed (of_char c)) s =
          filter (\<lambda>c. allowed (of_char c)) (take w s @ drop w s)" by simp
      also have "\<dots> = filter (\<lambda>c. allowed (of_char c)) (drop w s)"
        using dropped by (simp only: filter_append append_Nil)
      finally have skip: "filter (\<lambda>c. allowed (of_char c)) s =
          filter (\<lambda>c. allowed (of_char c)) (drop w s)" .
      have "foldl (\<lambda>b r. if allowed r then WriteRune b r else b) acc (runes s) =
          foldl (\<lambda>b r. if allowed r then WriteRune b r else b) acc (runes (drop w s))"
        unfolding unfold using nr by simp
      also have "\<dots> = acc @ filter (\<lambda>c. allowed (of_char c)) (drop w s)" by (rule ih)
      finally show ?thesis using skip by simp
    qed
  qed
qed

text \<open>
  C8. For every string, sanitize returns the lowercase form of the string with every
  character other than a-z, 0-9 and - removed, and \<open>x\<close> when that is empty; the three
  cases of the table test come out as the test states them.
\<close>

theorem sanitize_filter:
  "sanitize slow s = spec_sanitize slow s \<and>
   sanitize slow ''My-Instance'' = ''my-instance'' \<and>
   sanitize slow ''Name@123'' = ''name123'' \<and>
   sanitize slow ''!!!'' = ''x''"
proof -
  have "sanitize slow s = spec_sanitize slow s"
    by (simp add: sanitize_def spec_sanitize_def sanitize_loop allowed_of_char Let_def)
  moreover have "sanitize slow ''My-Instance'' = ''my-instance''" by code_simp
  moreover have "sanitize slow ''Name@123'' = ''name123''" by code_simp
  moreover have "sanitize slow ''!!!'' = ''x''" by code_simp
  ultimately show ?thesis by simp
qed

section \<open>Properties of the session sweep\<close>

lemma fold_delete:
  "fold (\<lambda>(sid, sess) m. if P sess then map_delete sid m else m) xs m0 =
   filter (\<lambda>(k, v). k \<notin> fst ` {p \<in> set xs. P (snd p)}) m0"
proof (induction xs arbitrary: m0)
  case Nil
  then show ?case by simp
next
  case (Cons x xs)
  obtain sid sess where x: "x = (sid, sess)" by (cases x)
  show ?case
  proof (cases "P sess")
    case True
    have img: "fst ` {p \<in> set (x # xs). P (snd p)} =
        insert sid (fst ` {p \<in> set xs. P (snd p)})"
      using True x by force
    have "fold (\<lambda>(sid, sess) m. if P sess then map_delete sid m else m) (x # xs) m0 =
        filter (\<lambda>(k, v). k \<notin> fst ` {p \<in> set xs. P (snd p)}) (map_delete sid m0)"
      using True x Cons.IH by simp
    also have "\<dots> = filter (\<lambda>(k, v). k \<notin> fst ` {p \<in> set (x # xs). P (snd p)}) m0"
      unfolding img map_delete_def filter_filter
      by (rule filter_cong) auto
    finally show ?thesis .
  next
    case False
    have "{p \<in> set (x # xs). P (snd p)} = {p \<in> set xs. P (snd p)}"
      using False x by auto
    with False x Cons.IH show ?thesis by simp
  qed
qed

lemma distinct_key_value:
  "distinct (map fst xs) \<Longrightarrow> (k, v) \<in> set xs \<Longrightarrow> (k, v') \<in> set xs \<Longrightarrow> v = v'"
  by (metis map_of_is_SomeI option.inject)

text \<open>
  C7. In a store made by \<open>NewStore\<close> (a TTL of thirty minutes), one run of
  \<open>cleanupExpired\<close> removes exactly the sessions whose last access is strictly before
  \<open>now\<close> minus thirty minutes: what stays is the sessions accessed within the TTL, as they
  were and in their order, and the TTL stays thirty minutes.
\<close>

theorem cleanupExpired_exact:
  assumes keys: "distinct (map fst (st_m st))" and ttl: "st_ttl st = st_ttl NewStore"
  shows "st_m (cleanupExpired now st) =
           filter (\<lambda>(sid, sess). \<not> sess_lastAccess sess < now - 30 * Minute) (st_m st) \<and>
         st_ttl (cleanupExpired now st) = 30 * Minute"
proof -
  let ?P = "\<lambda>sess. Before (LastAccess sess) (now + (- st_ttl st))"
  have "st_m (cleanupExpired now st) =
      filter (\<lambda>(k, v). k \<notin> fst ` {p \<in> set (st_m st). ?P (snd p)}) (st_m st)"
    by (simp add: cleanupExpired_def fold_delete)
  also have "\<dots> = filter (\<lambda>(k, v). \<not> ?P v) (st_m st)"
  proof (rule filter_cong [OF refl])
    fix x assume x: "x \<in> set (st_m st)"
    obtain k v where kv: "x = (k, v)" by (cases x)
    have "(k \<in> fst ` {p \<in> set (st_m st). ?P (snd p)}) = ?P v"
    proof
      assume "k \<in> fst ` {p \<in> set (st_m st). ?P (snd p)}"
      then obtain v' where "(k, v') \<in> set (st_m st)" and p: "?P v'" by auto
      with distinct_key_value [OF keys] x kv have "v = v'" by blast
      with p show "?P v" by simp
    next
      assume "?P v"
      with x kv show "k \<in> fst ` {p \<in> set (st_m st). ?P (snd p)}" by force
    qed
    with kv show "(case x of (k, v) \<Rightarrow> k \<notin> fst ` {p \<in> set (st_m st). ?P (snd p)}) =
        (case x of (k, v) \<Rightarrow> \<not> ?P v)" by simp
  qed
  also have "\<dots> = filter (\<lambda>(sid, sess). \<not> sess_lastAccess sess < now - 30 * Minute) (st_m st)"
    using ttl by (simp add: Before_def LastAccess_def NewStore_def)
  finally have "st_m (cleanupExpired now st) =
      filter (\<lambda>(sid, sess). \<not> sess_lastAccess sess < now - 30 * Minute) (st_m st)" .
  moreover have "st_ttl (cleanupExpired now st) = 30 * Minute"
    using ttl by (simp add: cleanupExpired_def NewStore_def)
  ultimately show ?thesis by simp
qed

text \<open>
  An instance: swept at minute 45, alice's session (last access at minute 0) goes and
  bob's (minute 20) stays.
\<close>

theorem cleanupExpired_exact_witness:
  "distinct (map fst (st_m two_sessions)) \<and> st_ttl two_sessions = st_ttl NewStore \<and>
   st_m (cleanupExpired (45 * Minute) two_sessions) =
     [(''bob'', \<lparr>sess_m = [], sess_lastAccess = 20 * Minute\<rparr>)]"
proof -
  have k: "distinct (map fst (st_m two_sessions))"
    by code_simp
  have t: "st_ttl two_sessions = st_ttl NewStore"
    by code_simp
  have "st_m two_sessions =
      [(''alice'', \<lparr>sess_m = [], sess_lastAccess = 0\<rparr>),
       (''bob'', \<lparr>sess_m = [], sess_lastAccess = 20 * Minute\<rparr>)]"
    by code_simp
  with cleanupExpired_exact [OF k t, of "45 * Minute"] k t show ?thesis
    by (simp add: Minute_def Second_def Millisecond_def)
qed

section \<open>Properties of the credential store\<close>

subsection \<open>EnsureUser\<close>

lemma find_username:
  "(find (\<lambda>r. u_username r = x) rows = None) = (x \<notin> set (map u_username rows))"
  by (auto simp: find_None_iff)

lemma insert_existing:
  "x \<in> set (map u_username (users d)) \<Longrightarrow> insert_user env x h d \<noteq> Inr d'"
  by (simp add: insert_user_def split: option.splits)

lemma insert_user_distinct:
  "distinct (map u_username (users d)) \<Longrightarrow> insert_user env x h d = Inr d' \<Longrightarrow>
   distinct (map u_username (users d'))"
  by (auto simp: insert_user_def split: option.splits if_splits)

lemma EnsureUser_changes:
  "snd (EnsureUser env u p d) = d \<or>
   (\<exists>h. insert_user env (TrimSpace env u) h d = Inr (snd (EnsureUser env u p d)))"
  by (auto simp: EnsureUser_def Let_def split: option.splits sum.splits)

lemma EnsureUser_distinct:
  assumes "distinct (map u_username (users d))"
  shows "distinct (map u_username (users (snd (EnsureUser env u p d))))"
  using EnsureUser_changes [of env u p d] assms insert_user_distinct by metis

lemma EnsureUser_unchanged:
  assumes "TrimSpace env u \<in> set (map u_username (users d))"
  shows "snd (EnsureUser env u p d) = d"
  using EnsureUser_changes [of env u p d] insert_existing [OF assms] by auto

lemma EnsureUser_found:
  assumes "TrimSpace env u \<in> set (map u_username (users d))"
    and "TrimSpace env u \<noteq> []" and "TrimSpace env p \<noteq> []"
    and "d_prepare env SelectUserId = None" and "d_run env SelectUserId = None"
  shows "fst (EnsureUser env u p d) = (False, None)"
proof -
  from assms(1) have "find (\<lambda>r. u_username r = TrimSpace env u) (users d) \<noteq> None"
    by (simp add: find_username)
  then obtain r where "find (\<lambda>r. u_username r = TrimSpace env u) (users d) = Some r" by auto
  with assms(5) have "query_user_id env (TrimSpace env u) d = Inr (u_id r)"
    by (simp add: query_user_id_def)
  with assms(2,3,4) show ?thesis by (simp add: EnsureUser_def Let_def)
qed

lemma EnsureUser_not_created:
  assumes "TrimSpace env u \<in> set (map u_username (users d))"
  shows "fst (fst (EnsureUser env u p d)) = False"
  using insert_existing [OF assms]
  by (auto simp: EnsureUser_def Let_def split: option.splits sum.splits)

text \<open>
  C5, as amended. When a user with the trimmed username exists already, EnsureUser
  inserts no row and leaves the database as it was, and does not report a creation,
  whatever the password and whatever the driver does; it returns \<open>(false, nil)\<close> when
  username and password are not blank after trimming and the lookup is prepared and run
  without a failure. Every call of EnsureUser, for any username, keeps the usernames of
  the table pairwise distinct.
\<close>

theorem EnsureUser_existing_user:
  assumes "TrimSpace env u \<in> set (map u_username (users d))"
  shows "snd (EnsureUser env u p d) = d \<and>
     fst (fst (EnsureUser env u p d)) = False \<and>
     (TrimSpace env u \<noteq> [] \<and> TrimSpace env p \<noteq> [] \<and>
      d_prepare env SelectUserId = None \<and> d_run env SelectUserId = None \<longrightarrow>
        fst (EnsureUser env u p d) = (False, None)) \<and>
     (distinct (map u_username (users d)) \<longrightarrow>
        distinct (map u_username (users (snd (EnsureUser env' u' p' d)))))"
  using EnsureUser_unchanged [OF assms] EnsureUser_not_created [OF assms]
    EnsureUser_found [OF assms] EnsureUser_distinct
  by blast

text \<open>An instance: the administrator exists; a second user can still be added.\<close>

theorem EnsureUser_existing_user_witness:
  "TrimSpace healthy ''admin '' \<in> set (map u_username (users admin_db)) \<and>
   TrimSpace healthy ''admin '' \<noteq> [] \<and> TrimSpace healthy ''pw'' \<noteq> [] \<and>
   d_prepare healthy SelectUserId = None \<and> d_run healthy SelectUserId = None \<and>
   distinct (map u_username (users admin_db)) \<and>
   EnsureUser healthy ''admin '' ''pw'' admin_db = ((False, None), admin_db) \<and>
   distinct (map u_username (users (snd (EnsureUser healthy ''carol'' ''pw'' admin_db))))"
proof -
  have a: "TrimSpace healthy ''admin '' \<in> set (map u_username (users admin_db))"
    by code_simp
  have b: "TrimSpace healthy ''admin '' \<noteq> []" "TrimSpace healthy ''pw'' \<noteq> []"
    "d_prepare healthy SelectUserId = None" "d_run healthy SelectUserId = None"
    "distinct (map u_username (users admin_db))"
    by code_simp+
  from EnsureUser_existing_user [OF a, of "''pw''" healthy "''carol''" "''pw''"] a b
  show ?thesis by (simp add: prod_eq_iff)
qed

text \<open>
  C5 as it is stated fails: with a password that is blank after trimming, EnsureUser
  returns the error of its first guard, not \<open>(false, nil)\<close>, also when the user exists.
\<close>

theorem EnsureUser_blank_password_counterexample:
  "TrimSpace healthy ''admin'' \<in> set (map u_username (users admin_db)) \<and>
   EnsureUser healthy ''admin'' ''   '' admin_db =
     ((False, Some (Err ''username/password required'')), admin_db)"
  by code_simp

subsection \<open>Keys belong to their owner\<close>

lemma scan_rows_owner:
  "scan_rows env rs out = Inr out' \<Longrightarrow> list_all (\<lambda>k. K_UserID k = u) out \<Longrightarrow>
   list_all (\<lambda>r. k_user_id r = u) rs \<Longrightarrow> list_all (\<lambda>k. K_UserID k = u) out'"
  by (induction rs arbitrary: out) (auto split: option.splits)

lemma select_keys_owner: "list_all (\<lambda>r. k_user_id r = u) (select_keys u d)"
  by (simp add: select_keys_def list_all_iff)

lemma ListKeys_owner: "list_all (\<lambda>k. K_UserID k = u) (fst (ListKeys env u d))"
proof (cases "scan_rows env (select_keys u d) []")
  case (Inl e)
  then show ?thesis by (simp add: ListKeys_def split: option.splits)
next
  case (Inr out)
  from scan_rows_owner [OF Inr _ select_keys_owner]
  have "list_all (\<lambda>k. K_UserID k = u) out" by simp
  with Inr show ?thesis by (simp add: ListKeys_def split: option.splits)
qed

lemma DeleteKey_frame:
  "u \<noteq> u' \<Longrightarrow>
   filter (\<lambda>r. k_user_id r = u') (api_keys (snd (DeleteKey env u k d))) =
   filter (\<lambda>r. k_user_id r = u') (api_keys d)"
  by (auto simp: DeleteKey_def split: option.splits intro!: filter_cong)

lemma UpdateKey_frame:
  "u \<noteq> u' \<Longrightarrow>
   filter (\<lambda>r. k_user_id r = u') (api_keys (snd (UpdateKey env u k n a s p d))) =
   filter (\<lambda>r. k_user_id r = u') (api_keys d)"
proof -
  assume ne: "u \<noteq> u'"
  have h: "filter (\<lambda>r. k_user_id r = u')
      (map (\<lambda>r. if k_id r = k \<and> k_user_id r = u
                then r\<lparr>k_name := n', k_access_key := a, k_secret_key := s, k_proxy := p\<rparr>
                else r) rows) =
      filter (\<lambda>r. k_user_id r = u') rows" for n' rows
    using ne by (induction rows) auto
  show ?thesis
    by (simp add: UpdateKey_def Let_def h split: option.splits)
qed

text \<open>
  C6. For distinct user ids \<open>u\<close> and \<open>u'\<close>: every key that \<open>ListKeys u\<close> returns has
  \<open>UserID = u\<close>, and \<open>DeleteKey u k\<close> and \<open>UpdateKey u k ...\<close> leave the rows owned by
  \<open>u'\<close> as they were, whatever \<open>k\<close> is and whatever the driver does.
\<close>

theorem keys_scoped_to_owner:
  assumes "u \<noteq> u'"
  shows "list_all (\<lambda>k. K_UserID k = u) (fst (ListKeys env u d)) \<and>
     filter (\<lambda>r. k_user_id r = u') (api_keys (snd (DeleteKey env u k d))) =
       filter (\<lambda>r. k_user_id r = u') (api_keys d) \<and>
     filter (\<lambda>r. k_user_id r = u')
         (api_keys (snd (UpdateKey env u k name accessKey secretKey proxy d))) =
       filter (\<lambda>r. k_user_id r = u') (api_keys d)"
  using ListKeys_owner DeleteKey_frame [OF assms] UpdateKey_frame [OF assms] by simp

text \<open>
  An instance: user 1 lists keys 3 and 1, and cannot delete or change key 2 of user 2.
\<close>

theorem keys_scoped_to_owner_witness:
  "(1::int) \<noteq> 2 \<and>
   map K_ID (fst (ListKeys healthy 1 two_owner_db)) = [3, 1] \<and>
   list_all (\<lambda>k. K_UserID k = 1) (fst (ListKeys healthy 1 two_owner_db)) \<and>
   filter (\<lambda>r. k_user_id r = 2) (api_keys (snd (DeleteKey healthy 1 2 two_owner_db))) =
     filter (\<lambda>r. k_user_id r = 2) (api_keys two_owner_db) \<and>
   map k_id (api_keys (snd (DeleteKey healthy 1 2 two_owner_db))) = [1, 2, 3] \<and>
   filter (\<lambda>r. k_user_id r = 2)
       (api_keys (snd (UpdateKey healthy 1 2 ''n'' ''a'' ''s'' ''p'' two_owner_db))) =
     filter (\<lambda>r. k_user_id r = 2) (api_keys two_owner_db)"
proof -
  have ne: "(1::int) \<noteq> 2" by simp
  have ids: "map K_ID (fst (ListKeys healthy 1 two_owner_db)) = [3, 1]"
    "map k_id (api_keys (snd (DeleteKey healthy 1 2 two_owner_db))) = [1, 2, 3]"
    by code_simp+
  from keys_scoped_to_owner [OF ne, of healthy two_owner_db 2 "''n''" "''a''" "''s''" "''p''"]
    ne ids
  show ?thesis by simp
qed

section \<open>Properties of the Lightsail functions\<close>

subsection \<open>Which calls are made\<close>

lemma calls_Sleep [simp]: "calls (Sleep d w) = calls w"
  by (simp add: Sleep_def)

lemma call_err_calls:
  "call_err c w = (r, w1) \<Longrightarrow> calls w1 = calls w @ [c]"
  by (auto simp: call_err_def api_def Let_def)

lemma retry_loop_calls:
  "retry_loop a n b (call_err c) i l w = (r, w2, tr) \<Longrightarrow>
   calls w2 = calls w @ replicate (length (results tr)) c"
proof (induction a n b "call_err c :: 'a world_scheme \<Rightarrow> error option \<times> 'a world_scheme" i l w
    arbitrary: r w2 tr rule: retry_loop.induct)
  case (1 a n b i l w)
  show ?case
  proof (cases "i < n")
    case False
    with "1.prems" show ?thesis by (auto simp: retry_loop_stop)
  next
    case True
    obtain x w1 where fw: "call_err c w = (x, w1)" by (cases "call_err c w")
    note app = call_err_calls [OF fw]
    show ?thesis
    proof (cases x)
      case None
      with True fw "1.prems" app show ?thesis by (auto simp: retry_loop_ok)
    next
      case (Some e)
      obtain r0 w0 tr0 where rec:
        "retry_loop a n b (call_err c) (i + 1) (Some e) (Sleep (sleepDur b i) w1) = (r0, w0, tr0)"
        by (cases "retry_loop a n b (call_err c) (i + 1) (Some e) (Sleep (sleepDur b i) w1)")
      from True fw Some rec "1.prems"
      have eq: "w2 = w0" "tr = Invoke (Some e) # Slept (sleepDur b i) # tr0"
        by (simp_all add: retry_loop_fail)
      from "1.hyps" [OF True fw [symmetric] Some refl rec]
      have "calls w0 = calls (Sleep (sleepDur b i) w1) @ replicate (length (results tr0)) c" .
      with eq app show ?thesis by (simp add: replicate_app_Cons_same)
    qed
  qed
qed

lemma SafeRetry_calls:
  assumes "SafeRetry a n b (call_err c) w = (r, w2, tr)"
  shows "calls w2 = calls w @ replicate (length (results tr)) c" and "results tr \<noteq> []"
proof -
  from assms have loop: "retry_loop a (max 1 n) b (call_err c) 0 None w = (r, w2, tr)"
    by (simp add: SafeRetry_def max_def split: if_splits)
  from retry_loop_calls [OF loop]
  show "calls w2 = calls w @ replicate (length (results tr)) c" .
  from SafeRetry_results [OF assms] SafeRetry_shape(3) [OF assms]
  show "results tr \<noteq> []" by (cases "r = None") auto
qed
lemma calls_api: "api c w = (r, w1) \<Longrightarrow> calls w1 = calls w @ [c]"
  by (auto simp: api_def Let_def)

lemma wait_detached_calls:
  "wait_detached n deadline w = (b, w') \<Longrightarrow> \<exists>ext. calls w' = calls w @ ext"
proof (induction n deadline w arbitrary: b w' rule: wait_detached.induct)
  case (1 n deadline w)
  show ?case
  proof (cases "Before (clock w) deadline")
    case False
    with "1.prems" show ?thesis by (simp add: wait_detached.simps [of n deadline w])
  next
    case True
    obtain r w1 where a: "api (GetStaticIp n) w = (r, w1)"
      by (cases "api (GetStaticIp n) w")
    note app = calls_api [OF a]
    show ?thesis
    proof (cases "\<exists>si. r_err r = None \<and> r_staticIp r = Some (Some si) \<and>
        s_IsAttached si \<noteq> Some False \<and> s_AttachedTo si \<noteq> None \<and> s_AttachedTo si \<noteq> Some []")
      case False
      with True a "1.prems" have "w' = w1"
        by (auto simp: wait_detached.simps [of n deadline w] split: option.splits if_splits)
      with app show ?thesis by simp
    next
      case again: True
      then obtain si where si: "r_err r = None" "r_staticIp r = Some (Some si)"
        "s_IsAttached si \<noteq> Some False" "s_AttachedTo si \<noteq> None" "s_AttachedTo si \<noteq> Some []"
        by blast
      from True a si "1.prems"
      have rec: "wait_detached n deadline (Sleep (Some (2 * Second)) w1) = (b, w')"
        by (auto simp: wait_detached.simps [of n deadline w])
      from si(4,5) have no: "\<not> (s_AttachedTo si = None \<or> s_AttachedTo si = Some [])" by simp
      from "1.IH" [OF True a [symmetric] _ si(1) si(2) refl si(3) no rec]
      obtain ext where "calls w' = calls (Sleep (Some (2 * Second)) w1) @ ext"
        by auto
      with app show ?thesis by simp
    qed
  qed
qed

lemma wait_released_calls:
  "wait_released n deadline w = (res, w') \<Longrightarrow> \<exists>ext. calls w' = calls w @ ext"
proof (induction n deadline w arbitrary: res w' rule: wait_released.induct)
  case (1 n deadline w)
  show ?case
  proof (cases "Before (clock w) deadline")
    case False
    with "1.prems" show ?thesis by (simp add: wait_released.simps [of n deadline w])
  next
    case True
    obtain r w1 where a: "api (GetStaticIp n) w = (r, w1)"
      by (cases "api (GetStaticIp n) w")
    note app = calls_api [OF a]
    show ?thesis
    proof (cases "r_err r \<noteq> None")
      case True
      with \<open>Before (clock w) deadline\<close> a "1.prems" app show ?thesis
        by (auto simp: wait_released.simps [of n deadline w])
    next
      case False
      with True a "1.prems"
      have rec: "wait_released n deadline (Sleep (Some (2 * Second)) w1) = (res, w')"
        by (simp add: wait_released.simps [of n deadline w])
      from "1.IH" [OF True a [symmetric] False rec]
      obtain ext where "calls w' = calls (Sleep (Some (2 * Second)) w1) @ ext" by auto
      with app show ?thesis by simp
    qed
  qed
qed

lemma FindAttachedStaticIPName_calls:
  "FindAttachedStaticIPName n w = (res, w1) \<Longrightarrow> calls w1 = calls w @ [GetStaticIps]"
  by (auto simp: FindAttachedStaticIPName_def api_def Let_def split: option.splits)

lemma cleanup_calls:
  assumes "DeletePreviousStaticIPOnlyForInstance n w = (res, w')"
  shows "\<exists>ext. calls w' = calls w @ GetStaticIps # ext"
proof -
  obtain oldName ip w1 where f: "FindAttachedStaticIPName n w = ((oldName, ip), w1)"
    by (cases "FindAttachedStaticIPName n w") auto
  note c1 = FindAttachedStaticIPName_calls [OF f]
  show ?thesis
  proof (cases "oldName = []")
    case True
    with f assms c1 show ?thesis
      by (simp add: DeletePreviousStaticIPOnlyForInstance_def)
  next
    case named: False
    obtain e2 w2 tr2 where d: "SafeRetry action_detach 8 (1200 * Millisecond)
        (call_err (DetachStaticIp oldName)) w1 = (e2, w2, tr2)"
      by (cases "SafeRetry action_detach 8 (1200 * Millisecond)
        (call_err (DetachStaticIp oldName)) w1")
    from SafeRetry_calls(1) [OF d] c1
    have c2: "\<exists>ext. calls w2 = calls w @ GetStaticIps # ext" by simp
    show ?thesis
    proof (cases e2)
      case (Some err)
      with f named d assms c2 show ?thesis
        by (simp add: DeletePreviousStaticIPOnlyForInstance_def)
    next
      case None
      obtain ok w3 where wd: "WaitStaticIPDetached oldName (120 * Second) w2 = (ok, w3)"
        by (cases "WaitStaticIPDetached oldName (120 * Second) w2")
      from wd wait_detached_calls c2
      have c3: "\<exists>ext. calls w3 = calls w @ GetStaticIps # ext"
        by (fastforce simp: WaitStaticIPDetached_def)
      show ?thesis
      proof (cases ok)
        case False
        with f named d None wd assms c3 show ?thesis
          by (simp add: DeletePreviousStaticIPOnlyForInstance_def)
      next
        case True
        obtain e4 w4 tr4 where rl: "SafeRetry action_release 12 (1300 * Millisecond)
            (call_err (ReleaseStaticIp oldName)) w3 = (e4, w4, tr4)"
          by (cases "SafeRetry action_release 12 (1300 * Millisecond)
            (call_err (ReleaseStaticIp oldName)) w3")
        from SafeRetry_calls(1) [OF rl] c3
        have c4: "\<exists>ext. calls w4 = calls w @ GetStaticIps # ext" by auto
        show ?thesis
        proof (cases e4)
          case (Some err)
          with f named d None wd True rl assms c4 show ?thesis
            by (simp add: DeletePreviousStaticIPOnlyForInstance_def)
        next
          case released: None
          from f named d None wd True rl released assms
          have "wait_released oldName (clock w4 + 90 * Second) w4 = (res, w')"
            by (simp add: DeletePreviousStaticIPOnlyForInstance_def)
          from wait_released_calls [OF this] c4 show ?thesis by auto
        qed
      qed
    qed
  qed
qed

text \<open>
  C10. For every instance name and every behaviour of the service,
  DeleteInstanceWithStaticIPCleanup first runs the cleanup, which begins by looking up
  the static IPs, and, whatever the cleanup returns, the next call after it is
  \<open>DeleteInstance\<close> for that name; what the function returns is the result of the
  deletion's retries alone.
\<close>

theorem cleanup_result_ignored:
  "take (Suc (length (calls w))) (calls (snd (DeletePreviousStaticIPOnlyForInstance name w))) =
     calls w @ [GetStaticIps] \<and>
   take (Suc (length (calls (snd (DeletePreviousStaticIPOnlyForInstance name w)))))
     (calls (snd (DeleteInstanceWithStaticIPCleanup name w))) =
     calls (snd (DeletePreviousStaticIPOnlyForInstance name w)) @ [DeleteInstance name] \<and>
   DeleteInstanceWithStaticIPCleanup name w =
     (result_of (SafeRetry action_delete 8 (1200 * Millisecond) (call_err (DeleteInstance name))
        (snd (DeletePreviousStaticIPOnlyForInstance name w))),
      world_of (SafeRetry action_delete 8 (1200 * Millisecond) (call_err (DeleteInstance name))
        (snd (DeletePreviousStaticIPOnlyForInstance name w))))"
proof -
  obtain res w1 where pre: "DeletePreviousStaticIPOnlyForInstance name w = (res, w1)"
    by (cases "DeletePreviousStaticIPOnlyForInstance name w")
  obtain e w2 tr where del:
    "SafeRetry action_delete 8 (1200 * Millisecond) (call_err (DeleteInstance name)) w1 =
       (e, w2, tr)"
    by (cases "SafeRetry action_delete 8 (1200 * Millisecond) (call_err (DeleteInstance name)) w1")
  from cleanup_calls [OF pre] have first: "take (Suc (length (calls w))) (calls w1) =
      calls w @ [GetStaticIps]" by auto
  from SafeRetry_calls [OF del] obtain k where
    "calls w2 = calls w1 @ DeleteInstance name # replicate k (DeleteInstance name)"
    by (cases "length (results tr)") auto
  then have issued: "take (Suc (length (calls w1))) (calls w2) = calls w1 @ [DeleteInstance name]"
    by simp
  from pre del have run: "DeleteInstanceWithStaticIPCleanup name w = (e, w2)"
    by (simp add: DeleteInstanceWithStaticIPCleanup_def)
  from first issued show ?thesis
    by (simp add: run pre del result_of_def world_of_def)
qed

text \<open>
  An instance: every detach is refused, the cleanup returns that error, and the
  instance is deleted all the same.
\<close>

theorem refused_detach_example:
  "fst (DeletePreviousStaticIPOnlyForInstance ''vm'' (world0 stuck_ip)) =
     ([], Some (Errorf_retry action_detach (Some (Err ''denied'')))) \<and>
   last (calls (snd (DeleteInstanceWithStaticIPCleanup ''vm'' (world0 stuck_ip)))) =
     DeleteInstance ''vm''"
  by code_simp

subsection \<open>ListInstances\<close>

text \<open>
  C4, as amended. If \<open>GetInstances\<close> returns an error, ListInstances returns no list and
  the error that wraps it with the localized message, and makes no other call. If
  \<open>GetInstances\<close> succeeds, ListInstances never returns an error, whatever
  \<open>GetStaticIps\<close> answers: its error is dropped. A \<open>nil\<close> error is returned only when
  \<open>GetInstances\<close> succeeded.
\<close>

theorem ListInstances_errors:
  assumes "api GetInstances w = (out, w1)"
  shows "(\<forall>err. r_err out = Some err \<longrightarrow>
        ListInstances Format w = (Return ([], Some (Errorf_list err)), w1)) \<and>
     (r_err out = None \<longrightarrow>
        (\<forall>lst e. fst (ListInstances Format w) \<noteq> Return (lst, Some e))) \<and>
     (\<forall>lst. fst (ListInstances Format w) = Return (lst, None) \<longrightarrow> r_err out = None)"
  using assms
  by (auto simp: ListInstances_def Let_def split: option.splits prod.splits)

text \<open>An instance: the service is throttled.\<close>

theorem ListInstances_errors_witness:
  "api GetInstances (world0 (failing_first 5)) =
     (quiet\<lparr>r_err := Some (Err ''throttled'')\<rparr>,
      (world0 (failing_first 5))\<lparr>calls := [GetInstances]\<rparr>) \<and>
   ListInstances (\<lambda>t. []) (world0 (failing_first 5)) =
     (Return ([], Some (Errorf_list (Err ''throttled''))),
      (world0 (failing_first 5))\<lparr>calls := [GetInstances]\<rparr>)"
proof -
  have a: "api GetInstances (world0 (failing_first 5)) =
     (quiet\<lparr>r_err := Some (Err ''throttled'')\<rparr>,
      (world0 (failing_first 5))\<lparr>calls := [GetInstances]\<rparr>)"
    by (simp add: api_def world0_def failing_first_def quiet_def Let_def)
  from ListInstances_errors [OF a, of "\<lambda>t. []"] a show ?thesis by simp
qed

text \<open>
  C4 as it is stated fails: \<open>GetStaticIps\<close> returns an error and ListInstances returns
  the list with a \<open>nil\<close> error.
\<close>

theorem ListInstances_static_ips_counterexample:
  "r_err (fst (api GetStaticIps (snd (api GetInstances (world0 ips_down))))) =
     Some (Err ''Throttling'') \<and>
   fst (ListInstances (\<lambda>t. []) (world0 ips_down)) =
     Return ([\<lparr>v_Name = ''vm'', v_State = ''running'', v_PublicIPv4 = ''1.2.3.4'',
               v_PublicIPv6 = [], v_StaticIPv4 = [], v_Zone = ''us-east-1a'',
               v_BundleID = ''nano_3_0'', v_Created = []\<rparr>], None)"
  by code_simp

section \<open>Properties of the quota lookup\<close>

text \<open>
  C3, as amended. With a client that is not \<open>nil\<close>: if both \<open>GetServiceQuota\<close> calls
  return an error, TestVCPUQuotas returns the formatted error that carries both; if one
  call returns an error, TestVCPUQuotas returns that formatted error when the other call
  yields no value, and a \<open>nil\<close> error when it yields one.
\<close>

theorem TestVCPUQuotas_errors:
  assumes "api (GetServiceQuota ''ec2'' quotaCodeOnDemandStdVcpu) w = (onOut, w1)"
    and "api (GetServiceQuota ''ec2'' quotaCodeSpotStdVcpu) w1 = (spotOut, w2)"
  shows "(r_err onOut \<noteq> None \<and> r_err spotOut \<noteq> None \<longrightarrow>
       TestVCPUQuotas pf False w =
         (([], [], [], [], Some (Errorf_quota (r_err onOut) (r_err spotOut))), w2)) \<and>
     (r_err onOut \<noteq> None \<longrightarrow>
       quota_err (TestVCPUQuotas pf False w) =
         (if snd (quota_fields pf spotOut) = []
          then Some (Errorf_quota (r_err onOut) (r_err spotOut)) else None)) \<and>
     (r_err spotOut \<noteq> None \<longrightarrow>
       quota_err (TestVCPUQuotas pf False w) =
         (if snd (quota_fields pf onOut) = []
          then Some (Errorf_quota (r_err onOut) (r_err spotOut)) else None))"
proof -
  have failed: "quota_fields pf out = ([], [])" if "r_err out \<noteq> None" for out
    using that by (auto simp: quota_fields_def)
  obtain onName onVal where on: "quota_fields pf onOut = (onName, onVal)"
    by (cases "quota_fields pf onOut")
  obtain spotName spotVal where spot: "quota_fields pf spotOut = (spotName, spotVal)"
    by (cases "quota_fields pf spotOut")
  have run: "TestVCPUQuotas pf False w =
      (if onVal = [] \<and> spotVal = []
       then (([], [], [], [], Some (Errorf_quota (r_err onOut) (r_err spotOut))), w2)
       else ((onVal, spotVal, onName, spotName, None), w2))"
    using assms on spot by (simp add: TestVCPUQuotas_def)
  show ?thesis
    using failed [of onOut] failed [of spotOut] on spot
    by (auto simp: run quota_err_def)
qed

text \<open>An instance: both calls are throttled.\<close>

theorem TestVCPUQuotas_errors_witness:
  "r_err (fst (api (GetServiceQuota ''ec2'' quotaCodeOnDemandStdVcpu) (world0 (failing_first 5))))
     \<noteq> None \<and>
   TestVCPUQuotas runtime0 False (world0 (failing_first 5)) =
     (([], [], [], [],
       Some (Errorf_quota (Some (Err ''throttled'')) (Some (Err ''throttled'')))),
      snd (api (GetServiceQuota ''ec2'' quotaCodeSpotStdVcpu)
        (snd (api (GetServiceQuota ''ec2'' quotaCodeOnDemandStdVcpu) (world0 (failing_first 5))))))"
proof -
  define w where "w = world0 (failing_first 5)"
  obtain onOut w1 where a: "api (GetServiceQuota ''ec2'' quotaCodeOnDemandStdVcpu) w = (onOut, w1)"
    by (cases "api (GetServiceQuota ''ec2'' quotaCodeOnDemandStdVcpu) w")
  obtain spotOut w2 where b: "api (GetServiceQuota ''ec2'' quotaCodeSpotStdVcpu) w1 = (spotOut, w2)"
    by (cases "api (GetServiceQuota ''ec2'' quotaCodeSpotStdVcpu) w1")
  from a have e1: "r_err onOut = Some (Err ''throttled'')"
    by (auto simp: w_def api_def world0_def failing_first_def quiet_def Let_def)
  from a b have e2: "r_err spotOut = Some (Err ''throttled'')"
    by (auto simp: w_def api_def world0_def failing_first_def quiet_def Let_def)
  from TestVCPUQuotas_errors [OF a b, of runtime0] e1 e2 a b
  show ?thesis by (simp add: w_def)
qed

text \<open>
  C3 as it is stated fails: the On-Demand call is denied, the Spot call answers 32, and
  TestVCPUQuotas returns the Spot value with a \<open>nil\<close> error.
\<close>

theorem TestVCPUQuotas_one_error_counterexample:
  "r_err (fst (api (GetServiceQuota ''ec2'' quotaCodeOnDemandStdVcpu) (world0 spot_only))) =
     Some (Err ''AccessDenied'') \<and>
   fst (TestVCPUQuotas runtime0 False (world0 spot_only)) =
     ([], ''32'', [], ''All Standard Spot Instance Requests'', None)"
  by code_simp

end
